theory Spec2Isabelle
  imports Complex_Main "HOL-Library.Word"
begin

section \<open>Primitive types\<close>

text \<open>
  The finality gadget of DAObet (\<^verbatim>\<open>randpa.hpp\<close>, \<^verbatim>\<open>round.hpp\<close>).

  The headers \<^verbatim>\<open>types.hpp\<close>, \<^verbatim>\<open>network_messages.hpp\<close> and
  \<^verbatim>\<open>prefix_chain_tree.hpp\<close> are not part of the sources at hand; what the engine and
  the round use of them is modelled from the specification and marked as such.

  A public key is a natural number; the default-constructed key is \<open>0\<close>. Signature
  and hash primitives are assumed primitive: a signature is modelled by the public key
  that is recovered from it, and a signature provider by the public key of the private
  key it signs with.
\<close>

type_synonym public_key_type = nat
type_synonym signature_type = public_key_type
type_synonym signature_provider_type = public_key_type
type_synonym uint32_t = "32 word"

text \<open>
  Modelled from the spec: a \<^verbatim>\<open>block_id\<close> is an opaque hash that embeds the block
  number in its leading bits, read by \<^verbatim>\<open>get_block_num\<close> (declared in the missing
  \<^verbatim>\<open>types.hpp\<close>). The pair is the 32-bit number and the rest of the hash.
\<close>

type_synonym block_id_type = "uint32_t \<times> nat"

definition get_block_num :: "block_id_type \<Rightarrow> uint32_t" where
  "get_block_num block_id = fst block_id"

section \<open>Messages\<close>

text \<open>
  Modelled from the spec: the message structures of the missing
  \<^verbatim>\<open>network_messages.hpp\<close>. A network message is a payload with a collection of
  signatures; \<^verbatim>\<open>public_keys()\<close> recovers one key per signature.
\<close>

record 'a network_msg =
  data :: 'a
  signatures :: "signature_type list"

definition public_keys :: "'a network_msg \<Rightarrow> public_key_type list" where
  "public_keys msg = signatures msg"

text \<open>The constructor that signs a payload once per signature provider.\<close>

definition signed_msg :: "'a \<Rightarrow> signature_provider_type list \<Rightarrow> 'a network_msg" where
  "signed_msg d sig_provs = \<lparr>data = d, signatures = sig_provs\<rparr>"

record prevote_type =
  round_num :: uint32_t
  base_block :: block_id_type
  blocks :: "block_id_type list"

record precommit_type =
  round_num :: uint32_t
  block_id :: block_id_type

type_synonym prevote_msg = "prevote_type network_msg"
type_synonym precommit_msg = "precommit_type network_msg"

record proof_type =
  round_num :: uint32_t
  best_block :: block_id_type
  prevotes :: "prevote_msg list"
  precommits :: "precommit_msg list"

record finality_notice_type =
  round_num :: uint32_t
  best_block :: block_id_type

record finality_req_proof_type =
  round_num :: uint32_t

record handshake_type =
  lib :: block_id_type

record handshake_ans_type =
  lib :: block_id_type

datatype randpa_net_msg_data =
    Prevote_msg prevote_msg
  | Precommit_msg precommit_msg
  | Finality_notice_msg "finality_notice_type network_msg"
  | Finality_req_proof_msg "finality_req_proof_type network_msg"
  | Proof_msg "proof_type network_msg"
  | Handshake_msg "handshake_type network_msg"
  | Handshake_ans_msg "handshake_ans_type network_msg"

section \<open>The prefix tree\<close>

text \<open>
  Modelled from the spec: the prefix-chain tree of the missing
  \<^verbatim>\<open>prefix_chain_tree.hpp\<close>. A node has its block id, the creator key, the set of
  active block-producer keys, the confirmations (voter key to prevote message, at most
  one per voter, kept in ascending key order as a \<^verbatim>\<open>std::map\<close> iterates) and its
  children in insertion order.
\<close>

datatype prefix_node =
  Node (block_id: block_id_type)
       (creator_key: public_key_type)
       (active_bp_keys: "public_key_type set")
       (confirmation_data: "(public_key_type \<times> prevote_msg) list")
       (adjacent_nodes: "prefix_node list")

text \<open>Assignment \<^verbatim>\<open>m[k] = v\<close> and insertion-if-absent on an ordered map.\<close>

fun map_assign :: "'k::linorder \<Rightarrow> 'v \<Rightarrow> ('k \<times> 'v) list \<Rightarrow> ('k \<times> 'v) list" where
  "map_assign k v [] = [(k, v)]"
| "map_assign k v ((k', v') # kvs) =
     (if k < k' then (k, v) # (k', v') # kvs
      else if k = k' then (k, v) # kvs
      else (k', v') # map_assign k v kvs)"

fun map_emplace :: "'k::linorder \<Rightarrow> 'v \<Rightarrow> ('k \<times> 'v) list \<Rightarrow> ('k \<times> 'v) list" where
  "map_emplace k v [] = [(k, v)]"
| "map_emplace k v ((k', v') # kvs) =
     (if k < k' then (k, v) # (k', v') # kvs
      else if k = k' then (k', v') # kvs
      else (k', v') # map_emplace k v kvs)"

definition has_confirmation :: "prefix_node \<Rightarrow> public_key_type \<Rightarrow> bool" where
  "has_confirmation node key \<longleftrightarrow> key \<in> fst ` set (confirmation_data node)"

text \<open>
  \<open>confirmation_number(N) = |confirmation_data(N)| + \<Sum> confirmation_number(C)\<close> over
  the children \<open>C\<close> of \<open>N\<close>.
\<close>

fun confirmation_number :: "prefix_node \<Rightarrow> nat"
  and confirmation_numbers :: "prefix_node list \<Rightarrow> nat" where
  "confirmation_number (Node b c a d ns) = length d + confirmation_numbers ns"
| "confirmation_numbers [] = 0"
| "confirmation_numbers (n # ns) = confirmation_number n + confirmation_numbers ns"

record prefix_chain_tree =
  root :: prefix_node
  last_inserted_block :: "(public_key_type \<times> block_id_type) list"

definition get_root :: "prefix_chain_tree \<Rightarrow> prefix_node" where
  "get_root tree = root tree"

text \<open>\<open>find(block_id)\<close>: the first node with the id, parents before children.\<close>

fun find_node :: "prefix_node \<Rightarrow> block_id_type \<Rightarrow> prefix_node option"
  and find_nodes :: "prefix_node list \<Rightarrow> block_id_type \<Rightarrow> prefix_node option" where
  "find_node (Node b c a d ns) i = (if b = i then Some (Node b c a d ns) else find_nodes ns i)"
| "find_nodes [] i = None"
| "find_nodes (n # ns) i =
     (case find_node n i of Some m \<Rightarrow> Some m | None \<Rightarrow> find_nodes ns i)"

definition find_tree :: "prefix_chain_tree \<Rightarrow> block_id_type \<Rightarrow> prefix_node option" where
  "find_tree tree i = find_node (root tree) i"

text \<open>
  \<open>insert(parent_id, blocks, creator_key, active_bp_keys)\<close>: the blocks become a chain
  below the parent; a child that is already present is not inserted again. A missing
  parent is the error \<open>NodeNotFound\<close>, here \<open>None\<close>.
\<close>

primrec new_chain :: "block_id_type list \<Rightarrow> public_key_type \<Rightarrow> public_key_type set \<Rightarrow> prefix_node list" where
  "new_chain [] ck bpk = []"
| "new_chain (x # xs) ck bpk = [Node x ck bpk [] (new_chain xs ck bpk)]"

fun map_first :: "('a \<Rightarrow> bool) \<Rightarrow> ('a \<Rightarrow> 'a) \<Rightarrow> 'a list \<Rightarrow> 'a list" where
  "map_first P f [] = []"
| "map_first P f (x # xs) = (if P x then f x # xs else x # map_first P f xs)"

primrec insert_below :: "block_id_type list \<Rightarrow> public_key_type \<Rightarrow> public_key_type set \<Rightarrow> prefix_node \<Rightarrow> prefix_node" where
  "insert_below [] ck bpk node = node"
| "insert_below (x # xs) ck bpk node =
     (if x \<in> prefix_node.block_id ` set (adjacent_nodes node)
      then Node (prefix_node.block_id node) (creator_key node) (active_bp_keys node) (confirmation_data node)
             (map_first (\<lambda>m. prefix_node.block_id m = x) (insert_below xs ck bpk) (adjacent_nodes node))
      else Node (prefix_node.block_id node) (creator_key node) (active_bp_keys node) (confirmation_data node)
             (adjacent_nodes node @ new_chain (x # xs) ck bpk))"

text \<open>Replace the node that \<open>find\<close> returns for an id by its image under \<open>f\<close>.\<close>

fun update_node :: "(prefix_node \<Rightarrow> prefix_node) \<Rightarrow> block_id_type \<Rightarrow> prefix_node \<Rightarrow> prefix_node"
  and update_nodes :: "(prefix_node \<Rightarrow> prefix_node) \<Rightarrow> block_id_type \<Rightarrow> prefix_node list \<Rightarrow> prefix_node list" where
  "update_node f i (Node b c a d ns) =
     (if b = i then f (Node b c a d ns) else Node b c a d (update_nodes f i ns))"
| "update_nodes f i [] = []"
| "update_nodes f i (n # ns) =
     (case find_node n i of Some m \<Rightarrow> update_node f i n # ns | None \<Rightarrow> n # update_nodes f i ns)"

definition insert_tree ::
  "prefix_chain_tree \<Rightarrow> block_id_type \<times> block_id_type list \<Rightarrow> public_key_type \<Rightarrow> public_key_type set
    \<Rightarrow> prefix_chain_tree option" where
  "insert_tree tree chain ck bpk =
     (case find_tree tree (fst chain) of
        None \<Rightarrow> None
      | Some parent \<Rightarrow>
          let root' = update_node (insert_below (snd chain) ck bpk) (fst chain) (root tree)
          in if root' = root tree then Some tree
             else Some (tree\<lparr>root := root',
                              last_inserted_block := map_assign ck (last (snd chain)) (last_inserted_block tree)\<rparr>))"

text \<open>
  The node a chain \<open>(base_block, blocks)\<close> binds to: the deepest block of \<open>blocks\<close>
  that is in the tree (scanned from the tail), else \<open>base_block\<close>.
\<close>

definition get_tree_node :: "prefix_chain_tree \<Rightarrow> block_id_type \<times> block_id_type list \<Rightarrow> prefix_node option" where
  "get_tree_node tree chain =
     (case List.find (\<lambda>b. find_tree tree b \<noteq> None) (rev (snd chain)) of
        None \<Rightarrow> find_tree tree (fst chain)
      | Some b \<Rightarrow> find_tree tree b)"

definition add_confirmation :: "public_key_type \<Rightarrow> prevote_msg \<Rightarrow> prefix_node \<Rightarrow> prefix_node" where
  "add_confirmation key conf node =
     Node (prefix_node.block_id node) (creator_key node) (active_bp_keys node)
          (map_emplace key conf (confirmation_data node)) (adjacent_nodes node)"

text \<open>
  \<open>add_confirmations(chain, voter_key, prevote_msg)\<close>: the vote is recorded on the node
  the chain binds to, unless the voter is already there; that node is returned. The
  result is null (\<open>None\<close>) when the chain binds to no node.
\<close>

definition add_confirmations ::
  "prefix_chain_tree \<Rightarrow> block_id_type \<times> block_id_type list \<Rightarrow> public_key_type \<Rightarrow> prevote_msg
    \<Rightarrow> (prefix_chain_tree \<times> prefix_node) option" where
  "add_confirmations tree chain key conf =
     (case get_tree_node tree chain of
        None \<Rightarrow> None
      | Some node \<Rightarrow>
          Some (tree\<lparr>root := update_node (add_confirmation key conf) (prefix_node.block_id node) (root tree)\<rparr>,
                add_confirmation key conf node))"

text \<open>\<open>get_branch(block_id)\<close>: the root as base block and the path from the child of the root to the block.\<close>

fun path_node :: "prefix_node \<Rightarrow> block_id_type \<Rightarrow> block_id_type list option"
  and path_nodes :: "prefix_node list \<Rightarrow> block_id_type \<Rightarrow> block_id_type list option" where
  "path_node (Node b c a d ns) i = (if b = i then Some [] else path_nodes ns i)"
| "path_nodes [] i = None"
| "path_nodes (n # ns) i =
     (case path_node n i of Some p \<Rightarrow> Some (prefix_node.block_id n # p) | None \<Rightarrow> path_nodes ns i)"

definition get_branch :: "prefix_chain_tree \<Rightarrow> block_id_type \<Rightarrow> block_id_type \<times> block_id_type list" where
  "get_branch tree i =
     (prefix_node.block_id (root tree), case path_node (root tree) i of None \<Rightarrow> [] | Some p \<Rightarrow> p)"

definition get_last_inserted_block :: "prefix_chain_tree \<Rightarrow> public_key_type \<Rightarrow> prefix_node option" where
  "get_last_inserted_block tree ck =
     (case map_of (last_inserted_block tree) ck of None \<Rightarrow> None | Some i \<Rightarrow> find_tree tree i)"

text \<open>\<open>get_head()\<close>: the deepest descendant; among equally deep ones the first inserted.\<close>

fun head_node :: "prefix_node \<Rightarrow> nat \<times> prefix_node"
  and head_nodes :: "prefix_node list \<Rightarrow> (nat \<times> prefix_node) option" where
  "head_node (Node b c a d ns) =
     (case head_nodes ns of None \<Rightarrow> (0, Node b c a d ns) | Some (h, m) \<Rightarrow> (Suc h, m))"
| "head_nodes [] = None"
| "head_nodes (n # ns) =
     (case head_nodes ns of
        None \<Rightarrow> Some (head_node n)
      | Some (h', m') \<Rightarrow> if fst (head_node n) < h' then Some (h', m') else Some (head_node n))"

definition get_head :: "prefix_chain_tree \<Rightarrow> prefix_node" where
  "get_head tree = snd (head_node (root tree))"

definition set_root :: "prefix_chain_tree \<Rightarrow> prefix_node \<Rightarrow> prefix_chain_tree" where
  "set_root tree node = tree\<lparr>root := node\<rparr>"

fun clear_node :: "prefix_node \<Rightarrow> prefix_node" where
  "clear_node (Node b c a d ns) = Node b c a [] (map clear_node ns)"

definition remove_confirmations :: "prefix_chain_tree \<Rightarrow> prefix_chain_tree" where
  "remove_confirmations tree = tree\<lparr>root := clear_node (root tree)\<rparr>"

section \<open>The round\<close>

datatype state_type =
    Init
  | Prevote
  | Ready_to_precommit
  | Precommit
  | Done
  | Fail

text \<open>
  The class \<^verbatim>\<open>randpa_round\<close>. The tree it points to is the engine's tree, and its three
  callbacks are the engine's \<^verbatim>\<open>bcast\<close> (twice) and \<^verbatim>\<open>finish_round\<close>, as
  \<^verbatim>\<open>randpa::new_round\<close> binds them; both are reached through the engine state that
  the operations of the round carry along. The member \<^verbatim>\<open>proof\<close> is the field
  \<open>the_proof\<close>.

  \<^verbatim>\<open>best_node\<close> is a shared pointer to a node of the tree. The model holds the node
  itself and copies into it what the tree writes to that node while the round lives (a
  confirmation, in \<^verbatim>\<open>add_prevote\<close>); a node is identified by its block id.
\<close>

record randpa_round =
  num :: uint32_t
  primary :: public_key_type
  state :: state_type
  the_proof :: proof_type
  best_node :: "prefix_node option"
  signature_providers :: "signature_provider_type list"
  prevoted_keys :: "public_key_type set"
  precommited_keys :: "public_key_type set"

definition get_num :: "randpa_round \<Rightarrow> uint32_t" where
  "get_num r = num r"

definition get_state :: "randpa_round \<Rightarrow> state_type" where
  "get_state r = state r"

definition set_state :: "state_type \<Rightarrow> randpa_round \<Rightarrow> randpa_round" where
  "set_state s r = r\<lparr>state := s\<rparr>"

text \<open>\<^verbatim>\<open>FC_ASSERT(state == state_type::done)\<close>: a failed assertion is \<open>None\<close>.\<close>

definition get_proof :: "randpa_round \<Rightarrow> proof_type option" where
  "get_proof r = (if state r = Done then Some (the_proof r) else None)"

definition finish :: "randpa_round \<Rightarrow> bool \<times> randpa_round" where
  "finish r = (if state r \<noteq> Done then (False, r\<lparr>state := Fail\<rparr>) else (True, r))"

definition find_last_node ::
  "prefix_chain_tree \<Rightarrow> block_id_type \<Rightarrow> block_id_type list \<Rightarrow> prefix_node option" where
  "find_last_node tree base bs =
     (case List.find (\<lambda>b. find_tree tree b \<noteq> None) (rev bs) of
        None \<Rightarrow> find_tree tree base
      | Some b \<Rightarrow> find_tree tree b)"

definition validate_prevote ::
  "prefix_chain_tree \<Rightarrow> randpa_round \<Rightarrow> prevote_msg \<Rightarrow> public_key_type \<Rightarrow> bool" where
  "validate_prevote tree r msg key =
     (if num r \<noteq> prevote_type.round_num (data msg) then False
      else if key \<in> prevoted_keys r then False
      else (case find_last_node tree (base_block (data msg)) (blocks (data msg)) of
              None \<Rightarrow> False
            | Some node \<Rightarrow> if key \<notin> active_bp_keys node then False else True))"

text \<open>Reading through a null \<^verbatim>\<open>best_node\<close> is \<open>None\<close>.\<close>

definition validate_precommit :: "randpa_round \<Rightarrow> precommit_msg \<Rightarrow> public_key_type \<Rightarrow> bool option" where
  "validate_precommit r msg key =
     (if num r \<noteq> precommit_type.round_num (data msg) then Some False
      else if key \<in> precommited_keys r then Some False
      else (case best_node r of
              None \<Rightarrow> None
            | Some best \<Rightarrow>
                if precommit_type.block_id (data msg) \<noteq> prefix_node.block_id best then Some False
                else if \<not> has_confirmation best key then Some False
                else Some True))"

text \<open>
  The two threshold tests. The counts are \<^verbatim>\<open>size_t\<close> values far below \<open>2\<^sup>6\<^sup>3\<close>, so
  the product \<open>2 * size\<close> does not wrap and the natural numbers compute what the code does.
\<close>

definition is_prevote_threshold_reached :: "prefix_node \<Rightarrow> bool" where
  "is_prevote_threshold_reached node \<longleftrightarrow>
     confirmation_number node > 2 * card (active_bp_keys node) div 3"

definition is_precommit_threshold_reached :: "randpa_round \<Rightarrow> bool option" where
  "is_precommit_threshold_reached r =
     (case best_node r of
        None \<Rightarrow> None
      | Some best \<Rightarrow> Some (length (precommits (the_proof r)) > 2 * card (active_bp_keys best) div 3))"

section \<open>The engine\<close>

record randpa_net_msg =
  ses_id :: uint32_t
  data :: randpa_net_msg_data
  receive_time :: int

record on_accepted_block_event =
  block_id :: block_id_type
  prev_block_id :: block_id_type
  creator_key :: public_key_type
  active_bp_keys :: "public_key_type set"
  sync :: bool

record on_irreversible_event =
  block_id :: block_id_type

record on_new_peer_event =
  ses_id :: uint32_t

datatype randpa_event_data =
    On_accepted_block on_accepted_block_event
  | On_irreversible on_irreversible_event
  | On_new_peer on_new_peer_event

datatype randpa_message =
    Net_msg randpa_net_msg
  | Event randpa_event_data

text \<open>
  \<^verbatim>\<open>digest_type::hash(msg)\<close> is modelled without collisions: the digest of a message
  is the message. The cache is \<^verbatim>\<open>boost::compute::detail::lru_cache\<close>, most recent
  first, which evicts its oldest entry when a new key arrives at full capacity.
\<close>

type_synonym digest_type = randpa_net_msg_data
type_synonym lru_cache_type = "digest_type list"

definition digest_hash :: "randpa_net_msg_data \<Rightarrow> digest_type" where
  "digest_hash msg = msg"

definition messages_cache_size :: nat where
  "messages_cache_size = 100 * 100 * 100"

definition proofs_cache_size :: nat where
  "proofs_cache_size = 2"

definition max_finality_lag_blocks :: uint32_t where
  "max_finality_lag_blocks = 69 * 12 * 2 * 2"

definition round_width :: uint32_t where
  "round_width = 2"

definition prevote_width :: uint32_t where
  "prevote_width = 1"

definition msg_expiration_ms :: int where
  "msg_expiration_ms = 1000"

definition lru_contains :: "lru_cache_type \<Rightarrow> digest_type \<Rightarrow> bool" where
  "lru_contains cache key \<longleftrightarrow> key \<in> set cache"

definition lru_insert :: "digest_type \<Rightarrow> lru_cache_type \<Rightarrow> lru_cache_type" where
  "lru_insert key cache =
     (if key \<in> set cache then cache
      else key # (if length cache \<ge> messages_cache_size then butlast cache else cache))"

text \<open>\<^verbatim>\<open>boost::circular_buffer::push_front\<close> at capacity \<open>proofs_cache_size\<close>.\<close>

definition push_front :: "proof_type \<Rightarrow> proof_type list \<Rightarrow> proof_type list" where
  "push_front p buf = take proofs_cache_size (p # buf)"

text \<open>
  The state of the class \<^verbatim>\<open>randpa\<close>; the member \<^verbatim>\<open>_x\<close> is the field \<open>m_x\<close>. The two
  output channels are the lists of what was sent on them, oldest first. The thread,
  the queue and the input channels only deliver messages to \<^verbatim>\<open>process_msg\<close>.
\<close>

record randpa =
  m_signature_providers :: "signature_provider_type list"
  m_public_keys :: "public_key_type list"
  m_sig_provs_by_key :: "(public_key_type \<times> signature_provider_type) list"
  m_is_block_producer :: bool
  m_prefix_tree :: prefix_chain_tree
  m_round :: "randpa_round option"
  m_lib :: block_id_type
  m_last_prooved_block_num :: uint32_t
  m_peers :: "(public_key_type \<times> uint32_t) list"
  m_peer_messages :: lru_cache_type
  m_self_messages :: lru_cache_type
  m_last_proofs :: "proof_type list"
  m_is_syncing :: bool
  m_is_frozen :: bool
  m_out_net_channel :: "(uint32_t \<times> randpa_net_msg_data) list"
  m_finality_channel :: "block_id_type list"

definition send :: "uint32_t \<Rightarrow> randpa_net_msg_data \<Rightarrow> randpa \<Rightarrow> randpa" where
  "send sid msg e = e\<lparr>m_out_net_channel := m_out_net_channel e @ [(sid, msg)]\<rparr>"

definition bcast :: "randpa_net_msg_data \<Rightarrow> randpa \<Rightarrow> randpa" where
  "bcast msg e =
     (let msg_hash = digest_hash msg
      in if lru_contains (m_peer_messages e) msg_hash then e
         else (let e' = fold (\<lambda>peer. send (snd peer) msg) (m_peers e) e
               in e'\<lparr>m_peer_messages := lru_insert msg_hash (m_peer_messages e')\<rparr>))"

definition get_active_signature_providers ::
  "randpa \<Rightarrow> public_key_type set \<Rightarrow> signature_provider_type list" where
  "get_active_signature_providers e bpk =
     concat (map (\<lambda>key. case map_of (m_sig_provs_by_key e) key of None \<Rightarrow> [] | Some sp \<Rightarrow> [sp])
                 (sorted_list_of_set bpk))"

definition randpa_validate_prevote ::
  "prevote_type \<Rightarrow> public_key_type \<Rightarrow> block_id_type \<Rightarrow> public_key_type set \<Rightarrow> bool" where
  "randpa_validate_prevote prevote prevoter_key best bp_keys =
     (if base_block prevote \<noteq> best \<and> best \<notin> set (blocks prevote) then False
      else if prevoter_key \<notin> bp_keys then False
      else True)"

definition randpa_validate_precommit ::
  "precommit_type \<Rightarrow> public_key_type \<Rightarrow> block_id_type \<Rightarrow> public_key_type set \<Rightarrow> bool" where
  "randpa_validate_precommit precommit precommiter_key best bp_keys =
     (if precommit_type.block_id precommit \<noteq> best then False
      else if precommiter_key \<notin> bp_keys then False
      else True)"

text \<open>
  The two loops of \<^verbatim>\<open>validate_proof\<close>, each with its set of collected keys; \<open>None\<close> is
  the early \<^verbatim>\<open>return false\<close>.
\<close>

fun validate_prevote_keys ::
  "prevote_type \<Rightarrow> block_id_type \<Rightarrow> public_key_type set \<Rightarrow> public_key_type list
    \<Rightarrow> public_key_type set \<Rightarrow> public_key_type set option" where
  "validate_prevote_keys pv best bp_keys [] prevoted = Some prevoted"
| "validate_prevote_keys pv best bp_keys (k # ks) prevoted =
     (if \<not> randpa_validate_prevote pv k best bp_keys then None
      else validate_prevote_keys pv best bp_keys ks (insert k prevoted))"

fun validate_prevotes ::
  "block_id_type \<Rightarrow> public_key_type set \<Rightarrow> prevote_msg list
    \<Rightarrow> public_key_type set \<Rightarrow> public_key_type set option" where
  "validate_prevotes best bp_keys [] prevoted = Some prevoted"
| "validate_prevotes best bp_keys (pv # pvs) prevoted =
     (case validate_prevote_keys (network_msg.data pv) best bp_keys (public_keys pv) prevoted of
        None \<Rightarrow> None
      | Some prevoted' \<Rightarrow> validate_prevotes best bp_keys pvs prevoted')"

fun validate_precommit_keys ::
  "precommit_type \<Rightarrow> block_id_type \<Rightarrow> public_key_type set \<Rightarrow> public_key_type set
    \<Rightarrow> public_key_type list \<Rightarrow> public_key_type set \<Rightarrow> public_key_type set option" where
  "validate_precommit_keys pc best bp_keys prevoted [] precommited = Some precommited"
| "validate_precommit_keys pc best bp_keys prevoted (k # ks) precommited =
     (if k \<notin> prevoted then None
      else if \<not> randpa_validate_precommit pc k best bp_keys then None
      else validate_precommit_keys pc best bp_keys prevoted ks (insert k precommited))"

fun validate_precommits ::
  "block_id_type \<Rightarrow> public_key_type set \<Rightarrow> public_key_type set \<Rightarrow> precommit_msg list
    \<Rightarrow> public_key_type set \<Rightarrow> public_key_type set option" where
  "validate_precommits best bp_keys prevoted [] precommited = Some precommited"
| "validate_precommits best bp_keys prevoted (pc # pcs) precommited =
     (case validate_precommit_keys (network_msg.data pc) best bp_keys prevoted (public_keys pc) precommited of
        None \<Rightarrow> None
      | Some precommited' \<Rightarrow> validate_precommits best bp_keys prevoted pcs precommited')"

definition validate_proof :: "randpa \<Rightarrow> proof_type \<Rightarrow> bool" where
  "validate_proof e proof =
     (let best = proof_type.best_block proof
      in case find_tree (m_prefix_tree e) best of
           None \<Rightarrow> False
         | Some node \<Rightarrow>
             (let bp_keys = prefix_node.active_bp_keys node
              in case validate_prevotes best bp_keys (prevotes proof) {} of
                   None \<Rightarrow> False
                 | Some prevoted \<Rightarrow>
                     (case validate_precommits best bp_keys prevoted (precommits proof) {} of
                        None \<Rightarrow> False
                      | Some precommited \<Rightarrow>
                          card precommited > card (prefix_node.active_bp_keys node) * 2 div 3)))"

definition on_proof_gained :: "proof_type \<Rightarrow> randpa \<Rightarrow> randpa" where
  "on_proof_gained proof e =
     (let e1 = e\<lparr>m_last_proofs := push_front proof (m_last_proofs e)\<rparr>;
          e2 = e1\<lparr>m_last_prooved_block_num := get_block_num (proof_type.best_block proof)\<rparr>;
          e3 = e2\<lparr>m_finality_channel := m_finality_channel e2 @ [proof_type.best_block proof]\<rparr>
      in bcast (Finality_notice_msg
                  (signed_msg \<lparr>finality_notice_type.round_num = proof_type.round_num proof,
                               best_block = proof_type.best_block proof\<rparr>
                              (m_signature_providers e3))) e3)"

text \<open>The fresh node \<^verbatim>\<open>tree_node { lib_id }\<close> has default members.\<close>

definition update_lib :: "block_id_type \<Rightarrow> randpa \<Rightarrow> randpa" where
  "update_lib lib_id e =
     (let tree' = (case find_tree (m_prefix_tree e) lib_id of
                     Some node \<Rightarrow> set_root (m_prefix_tree e) node
                   | None \<Rightarrow> set_root (m_prefix_tree e) (Node lib_id 0 {} [] []))
      in e\<lparr>m_prefix_tree := tree', m_lib := lib_id\<rparr>)"

text \<open>
  \<^verbatim>\<open>finish_round\<close> is the completion callback of the round. It runs inside an operation
  of the round \<^verbatim>\<open>_round\<close> points to, so the round it reads is passed along with
  the engine state; \<^verbatim>\<open>_round\<close> is not null then.
\<close>

definition finish_round :: "randpa_round \<times> randpa \<Rightarrow> (randpa_round \<times> randpa) option" where
  "finish_round re =
     (case finish (fst re) of
        (False, r') \<Rightarrow> Some (r', snd re)
      | (True, r') \<Rightarrow>
          (case get_proof r' of
             None \<Rightarrow> None
           | Some proof \<Rightarrow>
               if get_block_num (m_lib (snd re)) < get_block_num (proof_type.best_block proof)
               then Some (r', update_lib (proof_type.best_block proof) (on_proof_gained proof (snd re)))
               else Some (r', snd re)))"

subsection \<open>The operations of the round that reach the tree and the callbacks\<close>

text \<open>A loop over a vector whose body may fail; a failure ends the loop.\<close>

primrec for_each :: "'a list \<Rightarrow> ('a \<Rightarrow> 's \<Rightarrow> 's option) \<Rightarrow> 's \<Rightarrow> 's option" where
  "for_each [] body s = Some s"
| "for_each (x # xs) body s = (case body x s of None \<Rightarrow> None | Some s' \<Rightarrow> for_each xs body s')"

text \<open>What \<^verbatim>\<open>best_node\<close> points to, after the tree has written to the node \<open>node\<close>.\<close>

definition sync_best_node :: "prefix_node \<Rightarrow> randpa_round \<Rightarrow> randpa_round" where
  "sync_best_node node r =
     (case best_node r of
        None \<Rightarrow> r
      | Some best \<Rightarrow>
          if prefix_node.block_id best = prefix_node.block_id node
          then r\<lparr>best_node := Some (Node (prefix_node.block_id best) (prefix_node.creator_key best)
                                        (prefix_node.active_bp_keys best) (confirmation_data node)
                                        (adjacent_nodes best))\<rparr>
          else r)"

definition add_prevote :: "prevote_msg \<Rightarrow> randpa_round \<times> randpa \<Rightarrow> (randpa_round \<times> randpa) option" where
  "add_prevote msg re =
     (let r = fst re; e = snd re; pub_keys = public_keys msg
      in if length pub_keys \<noteq> 1 then None
         else (let key = hd pub_keys
               in case add_confirmations (m_prefix_tree e)
                         (base_block (network_msg.data msg), blocks (network_msg.data msg)) key msg of
                    None \<Rightarrow> None
                  | Some (tree', max_prevote_node) \<Rightarrow>
                      (let e1 = e\<lparr>m_prefix_tree := tree'\<rparr>;
                           r1 = sync_best_node max_prevote_node r;
                           r2 = r1\<lparr>prevoted_keys := insert key (prevoted_keys r1)\<rparr>
                       in if state r2 \<noteq> Ready_to_precommit \<and> is_prevote_threshold_reached max_prevote_node
                          then Some (r2\<lparr>state := Ready_to_precommit, best_node := Some max_prevote_node\<rparr>, e1)
                          else Some (r2, e1))))"

definition add_precommit :: "precommit_msg \<Rightarrow> randpa_round \<times> randpa \<Rightarrow> (randpa_round \<times> randpa) option" where
  "add_precommit msg re =
     (let r = fst re; e = snd re
      in if length (public_keys msg) \<noteq> 1 then None
         else (let key = hd (public_keys msg);
                   r1 = r\<lparr>precommited_keys := insert key (precommited_keys r)\<rparr>;
                   r2 = r1\<lparr>the_proof := (the_proof r1)\<lparr>precommits := precommits (the_proof r1) @ [msg]\<rparr>\<rparr>
               in if state r2 \<noteq> Done
                  then (case is_precommit_threshold_reached r2 of
                          None \<Rightarrow> None
                        | Some True \<Rightarrow> finish_round (r2\<lparr>state := Done\<rparr>, e)
                        | Some False \<Rightarrow> Some (r2, e))
                  else Some (r2, e)))"

definition prevote :: "randpa_round \<times> randpa \<Rightarrow> (randpa_round \<times> randpa) option" where
  "prevote re =
     (let r = fst re; e = snd re
      in if state r \<noteq> Init then None
         else (let r1 = r\<lparr>state := Prevote\<rparr>
               in case get_last_inserted_block (m_prefix_tree e) (primary r1) of
                    None \<Rightarrow> Some (r1, e)
                  | Some last_node \<Rightarrow>
                      (let chain = get_branch (m_prefix_tree e) (prefix_node.block_id last_node);
                           pv = \<lparr>prevote_type.round_num = num r1, base_block = fst chain, blocks = snd chain\<rparr>
                       in case for_each (signature_providers r1)
                                 (\<lambda>sig_prov. add_prevote (signed_msg pv [sig_prov])) (r1, e) of
                            None \<Rightarrow> None
                          | Some (r2, e2) \<Rightarrow>
                              Some (r2, bcast (Prevote_msg (signed_msg pv (signature_providers r2))) e2))))"

definition precommit :: "randpa_round \<times> randpa \<Rightarrow> (randpa_round \<times> randpa) option" where
  "precommit re =
     (let r = fst re; e = snd re
      in if state r \<noteq> Ready_to_precommit then None
         else (let r1 = r\<lparr>state := Precommit\<rparr>
               in case best_node r1 of
                    None \<Rightarrow> None
                  | Some best \<Rightarrow>
                      (let pc = \<lparr>precommit_type.round_num = num r1,
                                 block_id = prefix_node.block_id best\<rparr>
                       in case for_each (signature_providers r1)
                                 (\<lambda>sig_prov. add_precommit (signed_msg pc [sig_prov])) (r1, e) of
                            None \<Rightarrow> None
                          | Some (r2, e2) \<Rightarrow>
                              Some (r2, bcast (Precommit_msg (signed_msg pc (signature_providers r2))) e2))))"

text \<open>The constructor: the members are set and \<^verbatim>\<open>prevote()\<close> runs.\<close>

definition new_randpa_round ::
  "uint32_t \<Rightarrow> public_key_type \<Rightarrow> signature_provider_type list \<Rightarrow> randpa
    \<Rightarrow> (randpa_round \<times> randpa) option" where
  "new_randpa_round n prim sig_provs e =
     prevote (\<lparr>num = n, primary = prim, state = Init,
               the_proof = \<lparr>proof_type.round_num = 0, best_block = (0, 0), prevotes = [], precommits = []\<rparr>,
               best_node = None, signature_providers = sig_provs,
               prevoted_keys = {}, precommited_keys = {}\<rparr>, e)"

text \<open>
  \<^verbatim>\<open>on(const prevote_msg&)\<close> and \<^verbatim>\<open>on(const precommit_msg&)\<close>: a message with \<open>n\<close>
  signatures is handled as \<open>n\<close> messages with one signature each.
\<close>

definition on_prevote :: "prevote_msg \<Rightarrow> randpa_round \<times> randpa \<Rightarrow> (randpa_round \<times> randpa) option" where
  "on_prevote msg re =
     (if state (fst re) \<noteq> Prevote \<and> state (fst re) \<noteq> Ready_to_precommit then Some re
      else for_each (zip (signatures msg) (public_keys msg))
             (\<lambda>sk re'. if \<not> validate_prevote (m_prefix_tree (snd re')) (fst re') msg (snd sk) then Some re'
                       else add_prevote \<lparr>network_msg.data = network_msg.data msg, signatures = [fst sk]\<rparr> re')
             re)"

definition on_precommit :: "precommit_msg \<Rightarrow> randpa_round \<times> randpa \<Rightarrow> (randpa_round \<times> randpa) option" where
  "on_precommit msg re =
     (if state (fst re) \<noteq> Precommit \<and> state (fst re) \<noteq> Ready_to_precommit then Some re
      else for_each (zip (signatures msg) (public_keys msg))
             (\<lambda>sk re'. case validate_precommit (fst re') msg (snd sk) of
                         None \<Rightarrow> None
                       | Some False \<Rightarrow> Some re'
                       | Some True \<Rightarrow>
                           add_precommit \<lparr>network_msg.data = network_msg.data msg, signatures = [fst sk]\<rparr> re')
             re)"

definition end_prevote :: "randpa_round \<times> randpa \<Rightarrow> (randpa_round \<times> randpa) option" where
  "end_prevote re =
     (let r = fst re; e = snd re
      in if state r \<noteq> Ready_to_precommit then Some (r\<lparr>state := Fail\<rparr>, e)
         else (case best_node r of
                 None \<Rightarrow> None
               | Some best \<Rightarrow>
                   precommit
                     (r\<lparr>the_proof := (the_proof r)
                          \<lparr>proof_type.round_num := num r,
                           proof_type.best_block := prefix_node.block_id best,
                           prevotes := prevotes (the_proof r) @ map snd (confirmation_data best)\<rparr>\<rparr>, e)))"

subsection \<open>The handlers of the engine\<close>

definition round_num :: "block_id_type \<Rightarrow> uint32_t" where
  "round_num b = (get_block_num b - 1) div round_width"

definition num_in_round :: "block_id_type \<Rightarrow> uint32_t" where
  "num_in_round b = (get_block_num b - 1) mod round_width"

definition should_start_round :: "randpa \<Rightarrow> block_id_type \<Rightarrow> bool" where
  "should_start_round e b =
     (if get_block_num b < 1 then False
      else (case m_round e of
              None \<Rightarrow> True
            | Some r \<Rightarrow> round_num b > get_num r))"

definition should_end_prevote :: "randpa \<Rightarrow> block_id_type \<Rightarrow> bool" where
  "should_end_prevote e b =
     (case m_round e of
        None \<Rightarrow> False
      | Some r \<Rightarrow> round_num b = get_num r \<and> num_in_round b = prevote_width)"

definition is_active_bp :: "randpa \<Rightarrow> block_id_type \<Rightarrow> bool" where
  "is_active_bp e b =
     (if \<not> m_is_block_producer e then False
      else (case find_tree (m_prefix_tree e) b of
              None \<Rightarrow> False
            | Some node_ptr \<Rightarrow>
                list_ex (\<lambda>public_key. public_key \<in> prefix_node.active_bp_keys node_ptr) (m_public_keys e)))"

definition new_round :: "uint32_t \<Rightarrow> public_key_type \<Rightarrow> public_key_type set \<Rightarrow> randpa \<Rightarrow> randpa option" where
  "new_round n prim bpk e =
     (case new_randpa_round n prim (get_active_signature_providers e bpk) e of
        None \<Rightarrow> None
      | Some (r, e') \<Rightarrow> Some (e'\<lparr>m_round := Some r\<rparr>))"

definition remove_round :: "randpa \<Rightarrow> randpa" where
  "remove_round e =
     e\<lparr>m_peer_messages := [],
       m_self_messages := [],
       m_prefix_tree := remove_confirmations (m_prefix_tree e),
       m_round := None\<rparr>"

text \<open>
  The template \<^verbatim>\<open>process_round_msg<T>\<close>; its instances for \<^verbatim>\<open>prevote_msg\<close> and
  \<^verbatim>\<open>precommit_msg\<close> are the two handlers below. \<open>wrap\<close> is the message as a member of
  the message union, \<open>rn\<close> its \<^verbatim>\<open>data.round_num\<close> and \<open>round_on\<close> the overload of
  \<^verbatim>\<open>randpa_round::on\<close> for its type.
\<close>

definition process_round_msg ::
  "randpa_net_msg_data \<Rightarrow> uint32_t \<Rightarrow> (randpa_round \<times> randpa \<Rightarrow> (randpa_round \<times> randpa) option)
    \<Rightarrow> randpa \<Rightarrow> randpa option" where
  "process_round_msg wrap rn round_on e =
     (if m_is_syncing e \<or> m_is_frozen e then Some e
      else (let msg_hash = digest_hash wrap
            in if lru_contains (m_self_messages e) msg_hash then Some e
               else (let e1 = e\<lparr>m_self_messages := lru_insert msg_hash (m_self_messages e)\<rparr>;
                         last_round_num = round_num (prefix_node.block_id (get_head (m_prefix_tree e1)));
                         e2 = (if last_round_num = rn then bcast wrap e1 else e1)
                     in case m_round e2 of
                          None \<Rightarrow> Some e2
                        | Some r \<Rightarrow>
                            (case round_on (r, e2) of
                               None \<Rightarrow> None
                             | Some (r', e3) \<Rightarrow> Some (e3\<lparr>m_round := Some r'\<rparr>)))))"

definition on_prevote_msg :: "uint32_t \<Rightarrow> prevote_msg \<Rightarrow> randpa \<Rightarrow> randpa option" where
  "on_prevote_msg sid msg e =
     process_round_msg (Prevote_msg msg) (prevote_type.round_num (network_msg.data msg)) (on_prevote msg) e"

definition on_precommit_msg :: "uint32_t \<Rightarrow> precommit_msg \<Rightarrow> randpa \<Rightarrow> randpa option" where
  "on_precommit_msg sid msg e =
     process_round_msg (Precommit_msg msg) (precommit_type.round_num (network_msg.data msg)) (on_precommit msg) e"

definition on_finality_notice_msg :: "uint32_t \<Rightarrow> finality_notice_type network_msg \<Rightarrow> randpa \<Rightarrow> randpa" where
  "on_finality_notice_msg sid msg e =
     (let d = network_msg.data msg
      in if is_active_bp e (finality_notice_type.best_block d)
            \<and> get_block_num (finality_notice_type.best_block d) \<le> m_last_prooved_block_num e
         then e
         else send sid (Finality_req_proof_msg
                          (signed_msg \<lparr>finality_req_proof_type.round_num = finality_notice_type.round_num d\<rparr>
                                      (m_signature_providers e))) e)"

definition on_finality_req_proof_msg ::
  "uint32_t \<Rightarrow> finality_req_proof_type network_msg \<Rightarrow> randpa \<Rightarrow> randpa" where
  "on_finality_req_proof_msg sid msg e =
     (case List.find (\<lambda>proof. proof_type.round_num proof = finality_req_proof_type.round_num (network_msg.data msg))
             (m_last_proofs e) of
        None \<Rightarrow> e
      | Some proof \<Rightarrow> send sid (Proof_msg (signed_msg proof (m_signature_providers e))) e)"

definition on_proof_msg :: "uint32_t \<Rightarrow> proof_type network_msg \<Rightarrow> randpa \<Rightarrow> randpa" where
  "on_proof_msg sid msg e =
     (let proof = network_msg.data msg
      in if m_is_syncing e \<or> m_is_frozen e then e
         else if m_last_prooved_block_num e \<ge> get_block_num (proof_type.best_block proof) then e
         else if get_block_num (m_lib e) \<ge> get_block_num (proof_type.best_block proof) then e
         else if (case m_round e of None \<Rightarrow> False | Some r \<Rightarrow> get_state r = Done) then e
         else if \<not> validate_proof e proof then e
         else (let e1 = (case m_round e of
                           None \<Rightarrow> e
                         | Some r \<Rightarrow>
                             if get_num r = proof_type.round_num proof
                             then e\<lparr>m_round := Some (set_state Done r)\<rparr>
                             else e)
               in on_proof_gained proof e1))"

definition on_handshake_msg :: "uint32_t \<Rightarrow> handshake_type network_msg \<Rightarrow> randpa \<Rightarrow> randpa" where
  "on_handshake_msg sid msg e =
     fold (\<lambda>public_key e'.
             let e1 = e'\<lparr>m_peers := map_assign public_key sid (m_peers e')\<rparr>
             in send sid (Handshake_ans_msg
                            (signed_msg \<lparr>handshake_ans_type.lib = m_lib e1\<rparr> (m_signature_providers e1))) e1)
          (public_keys msg) e"

definition on_handshake_ans_msg :: "uint32_t \<Rightarrow> handshake_ans_type network_msg \<Rightarrow> randpa \<Rightarrow> randpa" where
  "on_handshake_ans_msg sid msg e =
     fold (\<lambda>public_key e'. e'\<lparr>m_peers := map_assign public_key sid (m_peers e')\<rparr>) (public_keys msg) e"

definition on_accepted_block :: "on_accepted_block_event \<Rightarrow> randpa \<Rightarrow> randpa option" where
  "on_accepted_block event e =
     (case insert_tree (m_prefix_tree e)
             (prev_block_id event, [on_accepted_block_event.block_id event])
             (creator_key event) (active_bp_keys event) of
        None \<Rightarrow> Some e
      | Some tree' \<Rightarrow>
          (let e1 = e\<lparr>m_prefix_tree := tree'\<rparr>;
               e2 = e1\<lparr>m_is_syncing := sync event\<rparr>;
               e3 = e2\<lparr>m_is_frozen :=
                         (get_block_num (on_accepted_block_event.block_id event) - get_block_num (m_lib e2)
                            > max_finality_lag_blocks)\<rparr>
           in if m_is_syncing e3 \<or> m_is_frozen e3 then Some e3
              else (case (if should_start_round e3 (on_accepted_block_event.block_id event)
                          then (let e4 = remove_round e3
                                in if is_active_bp e4 (on_accepted_block_event.block_id event)
                                   then new_round (round_num (on_accepted_block_event.block_id event))
                                          (creator_key event) (active_bp_keys event) e4
                                   else Some e4)
                          else Some e3) of
                      None \<Rightarrow> None
                    | Some e5 \<Rightarrow>
                        if should_end_prevote e5 (on_accepted_block_event.block_id event)
                        then (case m_round e5 of
                                None \<Rightarrow> None
                              | Some r \<Rightarrow>
                                  (case end_prevote (r, e5) of
                                     None \<Rightarrow> None
                                   | Some (r', e6) \<Rightarrow> Some (e6\<lparr>m_round := Some r'\<rparr>)))
                        else Some e5)))"

definition on_irreversible :: "on_irreversible_event \<Rightarrow> randpa \<Rightarrow> randpa" where
  "on_irreversible event e =
     (if get_block_num (block_id event) \<le> get_block_num (prefix_node.block_id (get_root (m_prefix_tree e)))
      then e
      else update_lib (block_id event) e)"

definition on_new_peer :: "on_new_peer_event \<Rightarrow> randpa \<Rightarrow> randpa" where
  "on_new_peer event e =
     send (on_new_peer_event.ses_id event)
          (Handshake_msg (signed_msg \<lparr>handshake_type.lib = m_lib e\<rparr> (m_signature_providers e))) e"

text \<open>
  \<^verbatim>\<open>check_is_valid_msg\<close> catches the exception of a key recovery that fails. A
  signature of the model is the key recovered from it, so the recovery succeeds.
\<close>

definition check_is_valid_msg :: "randpa_net_msg_data \<Rightarrow> bool" where
  "check_is_valid_msg msg = True"

text \<open>
  \<^verbatim>\<open>process_net_msg\<close> reads the clock; \<open>now\<close> is the time read, and both times are in
  milliseconds.
\<close>

definition process_net_msg :: "int \<Rightarrow> randpa_net_msg \<Rightarrow> randpa \<Rightarrow> randpa option" where
  "process_net_msg now msg e =
     (if now - receive_time msg > msg_expiration_ms then Some e
      else if \<not> check_is_valid_msg (data msg) then Some e
      else (case data msg of
              Prevote_msg m \<Rightarrow> on_prevote_msg (randpa_net_msg.ses_id msg) m e
            | Precommit_msg m \<Rightarrow> on_precommit_msg (randpa_net_msg.ses_id msg) m e
            | Finality_notice_msg m \<Rightarrow> Some (on_finality_notice_msg (randpa_net_msg.ses_id msg) m e)
            | Finality_req_proof_msg m \<Rightarrow> Some (on_finality_req_proof_msg (randpa_net_msg.ses_id msg) m e)
            | Proof_msg m \<Rightarrow> Some (on_proof_msg (randpa_net_msg.ses_id msg) m e)
            | Handshake_msg m \<Rightarrow> Some (on_handshake_msg (randpa_net_msg.ses_id msg) m e)
            | Handshake_ans_msg m \<Rightarrow> Some (on_handshake_ans_msg (randpa_net_msg.ses_id msg) m e)))"

definition process_event :: "randpa_event_data \<Rightarrow> randpa \<Rightarrow> randpa option" where
  "process_event event e =
     (case event of
        On_accepted_block ev \<Rightarrow> on_accepted_block ev e
      | On_irreversible ev \<Rightarrow> Some (on_irreversible ev e)
      | On_new_peer ev \<Rightarrow> Some (on_new_peer ev e))"

definition process_msg :: "int \<Rightarrow> randpa_message \<Rightarrow> randpa \<Rightarrow> randpa option" where
  "process_msg now msg e =
     (case msg of
        Net_msg m \<Rightarrow> process_net_msg now m e
      | Event ev \<Rightarrow> process_event ev e)"

text \<open>A run of the message loop: the messages with the clock readings at their dispatch.\<close>

primrec process_msgs :: "(int \<times> randpa_message) list \<Rightarrow> randpa \<Rightarrow> randpa option" where
  "process_msgs [] e = Some e"
| "process_msgs (m # ms) e =
     (case process_msg (fst m) (snd m) e of None \<Rightarrow> None | Some e' \<Rightarrow> process_msgs ms e')"

subsection \<open>Construction and start\<close>

text \<open>
  The constructor of \<^verbatim>\<open>randpa\<close>: a full node with one provider for a freshly generated
  private key (\<open>default_prov\<close>) and the default public key. \<^verbatim>\<open>start\<close> takes the tree.
\<close>

definition randpa_new :: "signature_provider_type \<Rightarrow> prefix_chain_tree \<Rightarrow> randpa" where
  "randpa_new default_prov tree =
     \<lparr>m_signature_providers = [default_prov],
      m_public_keys = [0],
      m_sig_provs_by_key = [],
      m_is_block_producer = False,
      m_prefix_tree = tree,
      m_round = None,
      m_lib = (0, 0),
      m_last_prooved_block_num = 0,
      m_peers = [],
      m_peer_messages = [],
      m_self_messages = [],
      m_last_proofs = [],
      m_is_syncing = False,
      m_is_frozen = False,
      m_out_net_channel = [],
      m_finality_channel = []\<rparr>"

definition set_type_block_producer :: "randpa \<Rightarrow> randpa" where
  "set_type_block_producer e = e\<lparr>m_is_block_producer := True\<rparr>"

definition set_signature_providers ::
  "signature_provider_type list \<Rightarrow> public_key_type list \<Rightarrow> randpa \<Rightarrow> randpa option" where
  "set_signature_providers sig_provs pub_keys e =
     (if \<not> m_is_block_producer e then None
      else if length sig_provs \<noteq> length pub_keys then None
      else Some (e\<lparr>m_signature_providers := sig_provs,
                   m_public_keys := pub_keys,
                   m_sig_provs_by_key := fold (\<lambda>kp m. map_assign (fst kp) (snd kp) m) (zip pub_keys sig_provs) []\<rparr>))"

definition start :: "prefix_chain_tree \<Rightarrow> randpa \<Rightarrow> randpa" where
  "start tree e = e\<lparr>m_prefix_tree := tree, m_lib := prefix_node.block_id (get_root tree)\<rparr>"

section \<open>Example states\<close>

text \<open>
  Four blocks, numbered 0 to 3, a schedule of four block producers, and the tree that
  holds the blocks as one chain below the last irreversible block.
\<close>

definition ex_B0 :: block_id_type where "ex_B0 = (0, 100)"
definition ex_B1 :: block_id_type where "ex_B1 = (1, 101)"
definition ex_B2 :: block_id_type where "ex_B2 = (2, 102)"
definition ex_B3 :: block_id_type where "ex_B3 = (3, 103)"

definition ex_bps :: "public_key_type set" where
  "ex_bps = {1, 2, 3, 4}"

definition ex_tree0 :: prefix_chain_tree where
  "ex_tree0 = \<lparr>root = Node ex_B0 0 {} [] [], last_inserted_block = []\<rparr>"

definition ex_accept ::
  "block_id_type \<Rightarrow> block_id_type \<Rightarrow> public_key_type \<Rightarrow> public_key_type set \<Rightarrow> int \<times> randpa_message" where
  "ex_accept b prev ck bpk =
     (0, Event (On_accepted_block
          \<lparr>on_accepted_block_event.block_id = b, prev_block_id = prev, creator_key = ck,
           active_bp_keys = bpk, sync = False\<rparr>))"

definition ex_net :: "randpa_net_msg_data \<Rightarrow> int \<times> randpa_message" where
  "ex_net d = (0, Net_msg \<lparr>randpa_net_msg.ses_id = 7, data = d, receive_time = 0\<rparr>)"

text \<open>A full node with one peer (key 9 at session 7) that has accepted the three blocks.\<close>

definition ex_full_node :: randpa where
  "ex_full_node = start ex_tree0 (randpa_new 99 ex_tree0)"

definition ex_full_node_msgs :: "(int \<times> randpa_message) list" where
  "ex_full_node_msgs =
     [ex_net (Handshake_msg (signed_msg \<lparr>handshake_type.lib = ex_B0\<rparr> [9])),
      ex_accept ex_B1 ex_B0 1 ex_bps,
      ex_accept ex_B2 ex_B1 2 ex_bps,
      ex_accept ex_B3 ex_B2 3 ex_bps]"

definition ex_full_node3 :: randpa where
  "ex_full_node3 =
     ex_full_node
       \<lparr>m_prefix_tree :=
          \<lparr>root = Node ex_B0 0 {} []
                    [Node ex_B1 1 ex_bps []
                       [Node ex_B2 2 ex_bps [] [Node ex_B3 3 ex_bps [] []]]],
           last_inserted_block = [(1, ex_B1), (2, ex_B2), (3, ex_B3)]\<rparr>,
        m_peers := [(9, 7)],
        m_out_net_channel :=
          [(7, Handshake_ans_msg (signed_msg \<lparr>handshake_ans_type.lib = ex_B0\<rparr> [99]))]\<rparr>"

text \<open>A finality proof for block 3 (round 1) by the keys 1, 2 and 3, and one that lacks a precommit.\<close>

definition ex_prevote :: "public_key_type \<Rightarrow> prevote_msg" where
  "ex_prevote k =
     signed_msg \<lparr>prevote_type.round_num = 1, base_block = ex_B0, blocks = [ex_B1, ex_B2, ex_B3]\<rparr> [k]"

definition ex_precommit :: "public_key_type \<Rightarrow> precommit_msg" where
  "ex_precommit k = signed_msg \<lparr>precommit_type.round_num = 1, block_id = ex_B3\<rparr> [k]"

definition ex_proof :: proof_type where
  "ex_proof =
     \<lparr>proof_type.round_num = 1, best_block = ex_B3,
      prevotes = map ex_prevote [1, 2, 3], precommits = map ex_precommit [1, 2, 3]\<rparr>"

definition ex_short_proof :: proof_type where
  "ex_short_proof = ex_proof\<lparr>precommits := map ex_precommit [1, 2]\<rparr>"

text \<open>A node of six block producers with four prevotes, and one with five (two on a child).\<close>

definition ex_six_4 :: prefix_node where
  "ex_six_4 =
     Node ex_B1 1 {1, 2, 3, 4, 5, 6}
       [(1, ex_prevote 1), (2, ex_prevote 2), (3, ex_prevote 3), (4, ex_prevote 4)] []"

definition ex_six_5 :: prefix_node where
  "ex_six_5 =
     Node ex_B1 1 {1, 2, 3, 4, 5, 6}
       [(1, ex_prevote 1), (2, ex_prevote 2), (3, ex_prevote 3)]
       [Node ex_B2 2 {1, 2, 3, 4, 5, 6} [(4, ex_prevote 4), (5, ex_prevote 5)] []]"

definition ex_notice :: "block_id_type \<Rightarrow> finality_notice_type network_msg" where
  "ex_notice b = signed_msg \<lparr>finality_notice_type.round_num = round_num b, best_block = b\<rparr> [9]"

definition ex_proof_msg :: "proof_type network_msg" where
  "ex_proof_msg = signed_msg ex_proof [9]"

definition ex_finality_notice :: randpa_net_msg_data where
  "ex_finality_notice =
     Finality_notice_msg (signed_msg \<lparr>finality_notice_type.round_num = 1, best_block = ex_B3\<rparr> [99])"

definition ex_far :: block_id_type where "ex_far = (4000, 104)"

definition ex_next :: block_id_type where "ex_next = (4001, 105)"

definition ex_freeze_msgs :: "(int \<times> randpa_message) list" where
  "ex_freeze_msgs = [ex_accept ex_far ex_B0 1 ex_bps]"

definition ex_thaw_msgs :: "(int \<times> randpa_message) list" where
  "ex_thaw_msgs =
     [(0, Event (On_irreversible \<lparr>on_irreversible_event.block_id = ex_far\<rparr>)),
      ex_accept ex_next ex_far 1 ex_bps]"

definition ex_bp_node :: randpa where
  "ex_bp_node =
     start ex_tree0
       (case set_signature_providers [1] [1] (set_type_block_producer (randpa_new 99 ex_tree0)) of
          None \<Rightarrow> randpa_new 99 ex_tree0
        | Some e \<Rightarrow> e)"

definition ex_vote1 :: "public_key_type \<Rightarrow> prevote_msg" where
  "ex_vote1 k = signed_msg \<lparr>prevote_type.round_num = 0, base_block = ex_B0, blocks = [ex_B1]\<rparr> [k]"

definition ex_commit1 :: "public_key_type \<Rightarrow> precommit_msg" where
  "ex_commit1 k = signed_msg \<lparr>precommit_type.round_num = 0, block_id = ex_B1\<rparr> [k]"

definition ex_prevote_phase :: "(int \<times> randpa_message) list" where
  "ex_prevote_phase =
     [ex_accept ex_B1 ex_B0 1 ex_bps,
      ex_net (Prevote_msg (ex_vote1 2)),
      ex_net (Prevote_msg (ex_vote1 3)),
      ex_accept ex_B2 ex_B1 1 ex_bps]"

definition ex_precommit_phase :: "(int \<times> randpa_message) list" where
  "ex_precommit_phase =
     [ex_net (Precommit_msg (ex_commit1 2)),
      ex_net (Precommit_msg (ex_commit1 3))]"

text \<open>The full node after it has handled the proof.\<close>

definition ex_proved_node :: randpa where
  "ex_proved_node = on_proof_msg 7 ex_proof_msg ex_full_node3"

definition ex_accept_event :: "block_id_type \<Rightarrow> block_id_type \<Rightarrow> on_accepted_block_event" where
  "ex_accept_event b prev =
     \<lparr>on_accepted_block_event.block_id = b, prev_block_id = prev, creator_key = 1,
      active_bp_keys = ex_bps, sync = False\<rparr>"

text \<open>
  The block producer with key 1 starts round 0 on the block \<open>B1\<close>, receives the
  prevotes of the keys 2 and 3 and then a precommit signed with its own key 1.
\<close>

definition ex_twin_msgs :: "(int \<times> randpa_message) list" where
  "ex_twin_msgs =
     [ex_accept ex_B1 ex_B0 1 ex_bps,
      ex_net (Prevote_msg (ex_vote1 2)),
      ex_net (Prevote_msg (ex_vote1 3)),
      ex_net (Precommit_msg (ex_commit1 1))]"

text \<open>A fresh round 1 whose signature provider has the key 5, not an active key of any block.\<close>

definition ex_stranger_round :: randpa_round where
  "ex_stranger_round =
     \<lparr>num = 1, primary = 3, state = Init,
      the_proof = \<lparr>proof_type.round_num = 0, best_block = (0, 0), prevotes = [], precommits = []\<rparr>,
      best_node = None, signature_providers = [5],
      prevoted_keys = {}, precommited_keys = {}\<rparr>"



section \<open>Relations and stages used in the proofs\<close>

text \<open>
  \<open>round_frame R\<close>: the relation \<open>R\<close> between engine states is kept by the steps
  the operations of a round are made of.
\<close>

definition round_frame :: "(randpa \<Rightarrow> randpa \<Rightarrow> bool) \<Rightarrow> bool" where
  "round_frame R \<longleftrightarrow>
     (\<forall>e. R e e)
     \<and> (\<forall>a b c. R a b \<longrightarrow> R b c \<longrightarrow> R a c)
     \<and> (\<forall>msg e. R e (bcast msg e))
     \<and> (\<forall>e chain key conf tree' node.
          add_confirmations (m_prefix_tree e) chain key conf = Some (tree', node)
            \<longrightarrow> R e (e\<lparr>m_prefix_tree := tree'\<rparr>))
     \<and> (\<forall>e proof.
          get_block_num (m_lib e) < get_block_num (proof_type.best_block proof)
            \<longrightarrow> R e (update_lib (proof_type.best_block proof) (on_proof_gained proof e)))"

text \<open>The root of the tree is the last irreversible block, and a step that keeps this and does not lower its number.\<close>

definition lib_is_root :: "randpa \<Rightarrow> bool" where
  "lib_is_root e \<longleftrightarrow> prefix_node.block_id (get_root (m_prefix_tree e)) = m_lib e"

definition lib_advances :: "randpa \<Rightarrow> randpa \<Rightarrow> bool" where
  "lib_advances e e' \<longleftrightarrow>
     (lib_is_root e \<longrightarrow> lib_is_root e' \<and> get_block_num (m_lib e) \<le> get_block_num (m_lib e'))"

text \<open>
  The three stages of the handler of an accepted block, after the insertion into the
  tree: the flags, the start of a round, the end of the prevote phase.
\<close>

definition accepted_flags :: "on_accepted_block_event \<Rightarrow> prefix_chain_tree \<Rightarrow> randpa \<Rightarrow> randpa" where
  "accepted_flags event tree' e =
     e\<lparr>m_prefix_tree := tree', m_is_syncing := sync event,
       m_is_frozen := (get_block_num (on_accepted_block_event.block_id event) - get_block_num (m_lib e)
                          > max_finality_lag_blocks)\<rparr>"

definition accepted_start :: "on_accepted_block_event \<Rightarrow> randpa \<Rightarrow> randpa option" where
  "accepted_start event e3 =
     (if should_start_round e3 (on_accepted_block_event.block_id event)
      then (let e4 = remove_round e3
            in if is_active_bp e4 (on_accepted_block_event.block_id event)
               then new_round (round_num (on_accepted_block_event.block_id event))
                      (creator_key event) (active_bp_keys event) e4
               else Some e4)
      else Some e3)"

definition accepted_end :: "on_accepted_block_event \<Rightarrow> randpa \<Rightarrow> randpa option" where
  "accepted_end event e5 =
     (if should_end_prevote e5 (on_accepted_block_event.block_id event)
      then (case m_round e5 of
              None \<Rightarrow> None
            | Some r \<Rightarrow>
                (case end_prevote (r, e5) of
                   None \<Rightarrow> None
                 | Some (r', e6) \<Rightarrow> Some (e6\<lparr>m_round := Some r'\<rparr>)))
      else Some e5)"

text \<open>The step of the proof handler that marks the round done.\<close>

definition proof_round_done :: "proof_type \<Rightarrow> randpa \<Rightarrow> randpa" where
  "proof_round_done p e =
     (case m_round e of
        None \<Rightarrow> e
      | Some r \<Rightarrow> if get_num r = proof_type.round_num p then e\<lparr>m_round := Some (set_state Done r)\<rparr> else e)"

text \<open>The frozen flag is as before.\<close>

definition frozen_kept :: "randpa \<Rightarrow> randpa \<Rightarrow> bool" where
  "frozen_kept e e' \<longleftrightarrow> m_is_frozen e' = m_is_frozen e"

text \<open>No node of the subtree holds a confirmation.\<close>

fun no_confirmations :: "prefix_node \<Rightarrow> bool" where
  "no_confirmations (Node b c a d ns) \<longleftrightarrow> d = [] \<and> list_all no_confirmations ns"

text \<open>The cache of handled messages and the two gates are as before.\<close>

definition dedup_kept :: "randpa \<Rightarrow> randpa \<Rightarrow> bool" where
  "dedup_kept e e' \<longleftrightarrow>
     m_self_messages e' = m_self_messages e \<and> m_is_syncing e' = m_is_syncing e
     \<and> m_is_frozen e' = m_is_frozen e"

text \<open>The members of a round that its constructor sets are as before.\<close>

definition same_round :: "randpa_round \<Rightarrow> randpa_round \<Rightarrow> bool" where
  "same_round r r' \<longleftrightarrow>
     num r' = num r \<and> primary r' = primary r \<and> signature_providers r' = signature_providers r"


text \<open>
  The two ways a round is in state \<^verbatim>\<open>done\<close>: the test of \<^verbatim>\<open>add_precommit\<close> on the
  number of entries of \<^verbatim>\<open>proof.precommits\<close>, and the proof handler of the engine, which
  has put the proof with the number of the round at the front of the proof cache.
\<close>

definition done_by_count :: "randpa_round \<Rightarrow> bool" where
  "done_by_count r =
     (case best_node r of
        None \<Rightarrow> False
      | Some best \<Rightarrow> length (precommits (the_proof r)) > 2 * card (prefix_node.active_bp_keys best) div 3)"

definition done_by_proof :: "randpa_round \<Rightarrow> randpa \<Rightarrow> bool" where
  "done_by_proof r e =
     (case m_last_proofs e of
        [] \<Rightarrow> False
      | p # ps \<Rightarrow> proof_type.round_num p = num r)"

definition done_justified :: "randpa_round \<Rightarrow> randpa \<Rightarrow> bool" where
  "done_justified r e \<longleftrightarrow> (state r = Done \<longrightarrow> done_by_count r \<or> done_by_proof r e)"


section \<open>Properties\<close>

subsection \<open>Evaluation\<close>

text \<open>
  The capacity of the message caches as an integer numeral, so that the comparison in
  \<open>lru_insert\<close> is evaluated in binary.
\<close>

lemma lru_insert_code [code]:
  "lru_insert key cache =
     (if key \<in> set cache then cache
      else key # (if int (length cache) \<ge> 100 * 100 * 100 then butlast cache else cache))"
  by (simp add: lru_insert_def messages_cache_size_def)

lemma process_msgs_append:
  "process_msgs (ms @ ms') e =
     (case process_msgs ms e of None \<Rightarrow> None | Some e1 \<Rightarrow> process_msgs ms' e1)"
  by (induction ms arbitrary: e) (auto split: option.splits)

subsection \<open>The example states\<close>

lemmas ex_defs =
  ex_B0_def ex_B1_def ex_B2_def ex_B3_def ex_bps_def ex_tree0_def ex_full_node_def ex_full_node3_def
  ex_prevote_def ex_precommit_def ex_proof_def ex_short_proof_def signed_msg_def public_keys_def

lemma ex_full_node3_reached: "process_msgs ex_full_node_msgs ex_full_node = Some ex_full_node3"
  by code_simp

subsection \<open>Thresholds\<close>

lemma floor_two_thirds: "nat \<lfloor>2 * real n / 3\<rfloor> = 2 * n div 3"
proof -
  have "\<lfloor>real (2 * n) / real 3\<rfloor> = int (2 * n div 3)"
    by (rule floor_divide_of_nat_eq)
  then show ?thesis by simp
qed

lemma exceeds_floor_iff: "(2 * n div 3 < c) = (2 * n < 3 * (c::nat))"
  by arith

text \<open>
  C6. Both threshold tests are strict comparisons against the floor of two thirds of
  the number \<open>n\<close> of active block-producer keys: the prevote test holds exactly when the
  confirmation number of the node exceeds \<open>\<lfloor>2n/3\<rfloor>\<close>, which is when three times the count
  exceeds \<open>2n\<close>; the precommit test holds exactly when the number of precommits of the
  proof exceeds \<open>\<lfloor>2n/3\<rfloor>\<close> for the best node. With six keys the prevote threshold is
  crossed exactly from five prevotes on: four do not cross it.
\<close>

theorem thresholds_strict_floor:
  "(is_prevote_threshold_reached node \<longleftrightarrow>
      confirmation_number node > nat \<lfloor>2 * real (card (prefix_node.active_bp_keys node)) / 3\<rfloor>)
   \<and> (is_prevote_threshold_reached node \<longleftrightarrow>
      2 * card (prefix_node.active_bp_keys node) < 3 * confirmation_number node)
   \<and> (best_node r = Some best \<longrightarrow>
        is_precommit_threshold_reached r =
          Some (length (precommits (the_proof r))
                  > nat \<lfloor>2 * real (card (prefix_node.active_bp_keys best)) / 3\<rfloor>))
   \<and> (card (prefix_node.active_bp_keys node) = 6 \<longrightarrow>
        (is_prevote_threshold_reached node \<longleftrightarrow> 5 \<le> confirmation_number node))"
  unfolding is_prevote_threshold_reached_def is_precommit_threshold_reached_def floor_two_thirds
  by (auto simp: exceeds_floor_iff)

lemma card_six: "card {1, 2, 3, 4, 5, 6::nat} = 6"
  by simp

theorem thresholds_strict_floor_witness:
  "confirmation_number ex_six_4 = 4 \<and> \<not> is_prevote_threshold_reached ex_six_4
   \<and> confirmation_number ex_six_5 = 5 \<and> is_prevote_threshold_reached ex_six_5"
  using thresholds_strict_floor [of ex_six_4] thresholds_strict_floor [of ex_six_5]
  by (simp add: ex_six_4_def ex_six_5_def card_six)

subsection \<open>Validation of a proof\<close>

lemma validate_prevote_keys_eq:
  "validate_prevote_keys pv best bpk ks acc =
     (if \<forall>k\<in>set ks. randpa_validate_prevote pv k best bpk then Some (acc \<union> set ks) else None)"
  by (induction ks arbitrary: acc) auto

lemma validate_prevotes_eq:
  "validate_prevotes best bpk pvs acc =
     (if \<forall>pv\<in>set pvs. \<forall>k\<in>set (public_keys pv). randpa_validate_prevote (network_msg.data pv) k best bpk
      then Some (acc \<union> (\<Union>pv\<in>set pvs. set (public_keys pv))) else None)"
  by (induction pvs arbitrary: acc) (auto simp: validate_prevote_keys_eq)

lemma validate_precommit_keys_eq:
  "validate_precommit_keys pc best bpk prevoted ks acc =
     (if \<forall>k\<in>set ks. k \<in> prevoted \<and> randpa_validate_precommit pc k best bpk
      then Some (acc \<union> set ks) else None)"
  by (induction ks arbitrary: acc) auto

lemma validate_precommits_eq:
  "validate_precommits best bpk prevoted pcs acc =
     (if \<forall>pc\<in>set pcs. \<forall>k\<in>set (public_keys pc).
           k \<in> prevoted \<and> randpa_validate_precommit (network_msg.data pc) k best bpk
      then Some (acc \<union> (\<Union>pc\<in>set pcs. set (public_keys pc))) else None)"
  by (induction pcs arbitrary: acc) (auto simp: validate_precommit_keys_eq)

text \<open>
  C3. \<^verbatim>\<open>validate_proof\<close> returns true if and only if the best block of the proof is found
  in the tree at a node \<open>T\<close>; every prevote of the proof has the best block as its base
  block or among its blocks, and each of its recovered keys is an active key of \<open>T\<close>;
  every recovered key of every precommit is among the keys recovered from the
  prevotes, the precommit names the best block, and the key is an active key of \<open>T\<close>;
  and the number of distinct precommit keys exceeds \<open>\<lfloor>2/3 \<cdot> |T.active_bp_keys|\<rfloor>\<close>.
\<close>

theorem validate_proof_iff:
  "validate_proof e proof \<longleftrightarrow>
     (\<exists>T. find_tree (m_prefix_tree e) (proof_type.best_block proof) = Some T
        \<and> (\<forall>pv\<in>set (prevotes proof). \<forall>K\<in>set (public_keys pv).
              (base_block (network_msg.data pv) = proof_type.best_block proof
                 \<or> proof_type.best_block proof \<in> set (blocks (network_msg.data pv)))
              \<and> K \<in> prefix_node.active_bp_keys T)
        \<and> (\<forall>pc\<in>set (precommits proof). \<forall>K\<in>set (public_keys pc).
              K \<in> (\<Union>pv\<in>set (prevotes proof). set (public_keys pv))
              \<and> precommit_type.block_id (network_msg.data pc) = proof_type.best_block proof
              \<and> K \<in> prefix_node.active_bp_keys T)
        \<and> card (\<Union>pc\<in>set (precommits proof). set (public_keys pc))
             > nat \<lfloor>2 * real (card (prefix_node.active_bp_keys T)) / 3\<rfloor>)"
  unfolding validate_proof_def Let_def validate_prevotes_eq validate_precommits_eq floor_two_thirds
    randpa_validate_prevote_def randpa_validate_precommit_def
  by (auto simp: mult.commute split: option.splits)

theorem validate_proof_iff_witness:
  "validate_proof ex_full_node3 ex_proof \<and> \<not> validate_proof ex_full_node3 ex_short_proof"
  unfolding validate_proof_iff
  by (simp add: ex_defs find_tree_def start_def randpa_new_def)

subsection \<open>What the operations of the round do to the engine\<close>

text \<open>
  A relation between the engine states before and after that is reflexive and
  transitive and holds across a broadcast, a confirmation written to the tree and the
  completion callback's update of the last irreversible block holds across every
  operation of the round.
\<close>

lemma round_frame_refl: "round_frame R \<Longrightarrow> R e e"
  by (simp add: round_frame_def)

lemma round_frame_trans: "round_frame R \<Longrightarrow> R a b \<Longrightarrow> R b c \<Longrightarrow> R a c"
  unfolding round_frame_def by blast

lemma round_frame_bcast: "round_frame R \<Longrightarrow> R e (bcast msg e)"
  by (simp add: round_frame_def)

lemma round_frame_tree:
  "round_frame R \<Longrightarrow> add_confirmations (m_prefix_tree e) chain key conf = Some (tree', node)
     \<Longrightarrow> R e (e\<lparr>m_prefix_tree := tree'\<rparr>)"
  unfolding round_frame_def by blast

lemma round_frame_lib:
  "round_frame R \<Longrightarrow> get_block_num (m_lib e) < get_block_num (proof_type.best_block proof)
     \<Longrightarrow> R e (update_lib (proof_type.best_block proof) (on_proof_gained proof e))"
  unfolding round_frame_def by blast

lemma finish_round_frame:
  assumes "round_frame R" and "finish_round (r, e) = Some (r', e')"
  shows "R e e'"
  using assms
  by (auto simp: finish_round_def finish_def round_frame_refl round_frame_lib
      split: if_splits option.splits prod.splits)

lemma add_prevote_frame:
  assumes "round_frame R" and "add_prevote msg (r, e) = Some (r', e')"
  shows "R e e'"
  using assms
  by (auto simp: add_prevote_def Let_def round_frame_tree split: if_splits option.splits prod.splits)

lemma add_precommit_frame:
  assumes "round_frame R" and "add_precommit msg (r, e) = Some (r', e')"
  shows "R e e'"
  using assms
  by (auto simp: add_precommit_def Let_def round_frame_refl
      split: if_splits option.splits prod.splits bool.splits dest: finish_round_frame)

lemma for_each_frame:
  assumes "round_frame R"
    and "\<And>x r e r' e'. body x (r, e) = Some (r', e') \<Longrightarrow> R e e'"
    and "for_each xs body (r, e) = Some (r', e')"
  shows "R e e'"
  using assms(3)
proof (induction xs arbitrary: r e)
  case Nil
  then show ?case using assms(1) by (simp add: round_frame_refl)
next
  case (Cons x xs)
  then obtain r1 e1 where step: "body x (r, e) = Some (r1, e1)"
    and rest: "for_each xs body (r1, e1) = Some (r', e')"
    by (auto split: option.splits)
  from assms(2) [OF step] Cons.IH [OF rest] show ?case
    using assms(1) round_frame_trans by blast
qed

lemma prevote_frame:
  assumes "round_frame R" and "prevote (r, e) = Some (r', e')"
  shows "R e e'"
proof -
  have loop: "\<And>pv sps r0 e0 r1 e1.
      for_each sps (\<lambda>sig_prov. add_prevote (signed_msg pv [sig_prov])) (r0, e0) = Some (r1, e1) \<Longrightarrow> R e0 e1"
    by (rule for_each_frame [OF assms(1)]) (auto dest: add_prevote_frame [OF assms(1)])
  show ?thesis
    using assms
    by (auto simp: prevote_def Let_def round_frame_refl split: if_splits option.splits prod.splits
        dest!: loop intro: round_frame_trans [OF assms(1) _ round_frame_bcast [OF assms(1)]])
qed

lemma precommit_frame:
  assumes "round_frame R" and "precommit (r, e) = Some (r', e')"
  shows "R e e'"
proof -
  have loop: "\<And>pc sps r0 e0 r1 e1.
      for_each sps (\<lambda>sig_prov. add_precommit (signed_msg pc [sig_prov])) (r0, e0) = Some (r1, e1) \<Longrightarrow> R e0 e1"
    by (rule for_each_frame [OF assms(1)]) (auto dest: add_precommit_frame [OF assms(1)])
  show ?thesis
    using assms
    by (auto simp: precommit_def Let_def round_frame_refl split: if_splits option.splits prod.splits
        dest!: loop intro: round_frame_trans [OF assms(1) _ round_frame_bcast [OF assms(1)]])
qed

lemma end_prevote_frame:
  assumes "round_frame R" and "end_prevote (r, e) = Some (r', e')"
  shows "R e e'"
  using assms
  by (auto simp: end_prevote_def Let_def round_frame_refl split: if_splits option.splits
      dest: precommit_frame)

lemma on_prevote_frame:
  assumes "round_frame R" and "on_prevote msg (r, e) = Some (r', e')"
  shows "R e e'"
proof (cases "state r \<noteq> Prevote \<and> state r \<noteq> Ready_to_precommit")
  case True
  with assms show ?thesis by (auto simp: on_prevote_def round_frame_refl)
next
  case False
  with assms(2) have "for_each (zip (signatures msg) (public_keys msg))
             (\<lambda>sk re'. if \<not> validate_prevote (m_prefix_tree (snd re')) (fst re') msg (snd sk) then Some re'
                       else add_prevote \<lparr>network_msg.data = network_msg.data msg, signatures = [fst sk]\<rparr> re')
             (r, e) = Some (r', e')"
    by (auto simp: on_prevote_def)
  then show ?thesis
    by (rule for_each_frame [OF assms(1), rotated])
      (auto split: if_splits simp: round_frame_refl [OF assms(1)] dest: add_prevote_frame [OF assms(1)])
qed

lemma on_precommit_frame:
  assumes "round_frame R" and "on_precommit msg (r, e) = Some (r', e')"
  shows "R e e'"
proof (cases "state r \<noteq> Precommit \<and> state r \<noteq> Ready_to_precommit")
  case True
  with assms show ?thesis by (auto simp: on_precommit_def round_frame_refl)
next
  case False
  with assms(2) have "for_each (zip (signatures msg) (public_keys msg))
             (\<lambda>sk re'. case validate_precommit (fst re') msg (snd sk) of
                         None \<Rightarrow> None
                       | Some False \<Rightarrow> Some re'
                       | Some True \<Rightarrow>
                           add_precommit \<lparr>network_msg.data = network_msg.data msg, signatures = [fst sk]\<rparr> re')
             (r, e) = Some (r', e')"
    by (auto simp: on_precommit_def)
  then show ?thesis
    by (rule for_each_frame [OF assms(1), rotated])
      (auto split: if_splits option.splits bool.splits simp: round_frame_refl [OF assms(1)]
        dest: add_precommit_frame [OF assms(1)])
qed

subsection \<open>The last irreversible block\<close>

lemma find_node_block_id:
  "find_node n i = Some m \<Longrightarrow> prefix_node.block_id m = i"
  "find_nodes ns i = Some m \<Longrightarrow> prefix_node.block_id m = i"
  by (induction n i and ns i rule: find_node_find_nodes.induct) (auto split: if_splits option.splits)

lemma find_tree_block_id: "find_tree t i = Some m \<Longrightarrow> prefix_node.block_id m = i"
  by (simp add: find_tree_def find_node_block_id)

lemma block_id_update_node:
  "(\<And>m. prefix_node.block_id (f m) = prefix_node.block_id m)
     \<Longrightarrow> prefix_node.block_id (update_node f i n) = prefix_node.block_id n"
  by (cases n) simp

lemma block_id_insert_below: "prefix_node.block_id (insert_below bs ck bpk n) = prefix_node.block_id n"
  by (cases bs) auto

lemma block_id_add_confirmation: "prefix_node.block_id (add_confirmation k c n) = prefix_node.block_id n"
  by (simp add: add_confirmation_def)

lemma block_id_clear_node: "prefix_node.block_id (clear_node n) = prefix_node.block_id n"
  by (cases n) simp

lemma insert_tree_root_id:
  "insert_tree t ch ck bpk = Some t' \<Longrightarrow> prefix_node.block_id (root t') = prefix_node.block_id (root t)"
  by (auto simp: insert_tree_def Let_def block_id_update_node block_id_insert_below
      split: option.splits if_splits)

lemma add_confirmations_root_id:
  "add_confirmations t ch k c = Some (t', n) \<Longrightarrow> prefix_node.block_id (root t') = prefix_node.block_id (root t)"
  by (auto simp: add_confirmations_def block_id_update_node block_id_add_confirmation split: option.splits)

lemma fold_send:
  "fold (\<lambda>peer. send (snd peer) msg) ps e =
     e\<lparr>m_out_net_channel := m_out_net_channel e @ map (\<lambda>peer. (snd peer, msg)) ps\<rparr>"
  by (induction ps arbitrary: e) (simp_all add: send_def)

lemma bcast_eq:
  "bcast msg e =
     (if msg \<in> set (m_peer_messages e) then e
      else e\<lparr>m_out_net_channel := m_out_net_channel e @ map (\<lambda>peer. (snd peer, msg)) (m_peers e),
             m_peer_messages := lru_insert msg (m_peer_messages e)\<rparr>)"
  by (simp add: bcast_def Let_def fold_send lru_contains_def digest_hash_def)

lemma bcast_fields:
  "m_lib (bcast msg e) = m_lib e"
  "m_prefix_tree (bcast msg e) = m_prefix_tree e"
  "m_is_frozen (bcast msg e) = m_is_frozen e"
  "m_is_syncing (bcast msg e) = m_is_syncing e"
  "m_round (bcast msg e) = m_round e"
  "m_last_proofs (bcast msg e) = m_last_proofs e"
  "m_last_prooved_block_num (bcast msg e) = m_last_prooved_block_num e"
  "m_finality_channel (bcast msg e) = m_finality_channel e"
  "m_self_messages (bcast msg e) = m_self_messages e"
  "m_peers (bcast msg e) = m_peers e"
  "m_signature_providers (bcast msg e) = m_signature_providers e"
  "m_public_keys (bcast msg e) = m_public_keys e"
  "m_sig_provs_by_key (bcast msg e) = m_sig_provs_by_key e"
  "m_is_block_producer (bcast msg e) = m_is_block_producer e"
  by (simp_all add: bcast_eq)

lemma update_lib_root: "lib_is_root (update_lib b e)"
  by (auto simp: lib_is_root_def update_lib_def get_root_def set_root_def find_tree_block_id
      split: option.splits)

lemma m_lib_update_lib: "m_lib (update_lib b e) = b"
  by (simp add: update_lib_def)

lemma lib_is_root_bcast: "lib_is_root (bcast msg e) = lib_is_root e"
  by (simp add: lib_is_root_def bcast_fields)

lemma lib_is_root_add_confirmations:
  "add_confirmations (m_prefix_tree e) ch k c = Some (t', n)
     \<Longrightarrow> lib_is_root (e\<lparr>m_prefix_tree := t'\<rparr>) = lib_is_root e"
  by (simp add: lib_is_root_def get_root_def add_confirmations_root_id)

lemma round_frame_lib_advances: "round_frame lib_advances"
  unfolding round_frame_def lib_advances_def
  by (auto simp: bcast_fields update_lib_root m_lib_update_lib lib_is_root_bcast
        lib_is_root_add_confirmations)

lemma lib_advances_same:
  "m_lib e' = m_lib e
     \<Longrightarrow> prefix_node.block_id (root (m_prefix_tree e')) = prefix_node.block_id (root (m_prefix_tree e))
     \<Longrightarrow> lib_advances e e'"
  by (simp add: lib_advances_def lib_is_root_def get_root_def)

lemma lib_advances_refl [simp]: "lib_advances e e"
  by (simp add: lib_advances_def)

lemma lib_advances_trans: "lib_advances a b \<Longrightarrow> lib_advances b c \<Longrightarrow> lib_advances a c"
  by (rule round_frame_trans [OF round_frame_lib_advances])

lemma lib_advances_round: "lib_advances a b \<Longrightarrow> lib_advances a (b\<lparr>m_round := x\<rparr>)"
  by (simp add: lib_advances_def lib_is_root_def)

lemma send_fields:
  "m_lib (send s m e) = m_lib e"
  "m_prefix_tree (send s m e) = m_prefix_tree e"
  "m_is_frozen (send s m e) = m_is_frozen e"
  "m_round (send s m e) = m_round e"
  by (simp_all add: send_def)

lemma process_round_msg_lib:
  assumes "\<And>r e r' e'. round_on (r, e) = Some (r', e') \<Longrightarrow> lib_advances e e'"
    and "process_round_msg wrap rn round_on e = Some e'"
  shows "lib_advances e e'"
proof -
  have a: "lib_advances e (e\<lparr>m_self_messages := x\<rparr>)" for x
    by (rule lib_advances_same) simp_all
  have b: "lib_advances e (bcast wrap (e\<lparr>m_self_messages := x\<rparr>))" for x
    by (rule lib_advances_same) (simp_all add: bcast_fields)
  show ?thesis
    using assms(2)
    by (auto simp: process_round_msg_def Let_def round_frame_refl [OF round_frame_lib_advances] a b bcast_fields
        split: if_splits option.splits prod.splits
        dest!: assms(1) intro: lib_advances_trans [OF a] lib_advances_trans [OF b] lib_advances_round)
qed

lemma on_proof_gained_fields:
  "m_lib (on_proof_gained p e) = m_lib e"
  "m_prefix_tree (on_proof_gained p e) = m_prefix_tree e"
  "m_is_frozen (on_proof_gained p e) = m_is_frozen e"
  "m_is_syncing (on_proof_gained p e) = m_is_syncing e"
  "m_round (on_proof_gained p e) = m_round e"
  by (simp_all add: on_proof_gained_def Let_def bcast_fields)

lemma on_handshake_fields:
  "m_lib (on_handshake_msg s m e) = m_lib e"
  "m_prefix_tree (on_handshake_msg s m e) = m_prefix_tree e"
  "m_is_frozen (on_handshake_msg s m e) = m_is_frozen e"
  "m_round (on_handshake_msg s m e) = m_round e"
proof -
  have "m_lib (fold f ks e) = m_lib e \<and> m_prefix_tree (fold f ks e) = m_prefix_tree e
      \<and> m_is_frozen (fold f ks e) = m_is_frozen e \<and> m_round (fold f ks e) = m_round e"
    if "f = (\<lambda>public_key e'.
             let e1 = e'\<lparr>m_peers := map_assign public_key s (m_peers e')\<rparr>
             in send s (Handshake_ans_msg
                            (signed_msg \<lparr>handshake_ans_type.lib = m_lib e1\<rparr> (m_signature_providers e1))) e1)"
    for f ks
    unfolding that by (induction ks arbitrary: e) (simp_all add: Let_def send_fields)
  then show "m_lib (on_handshake_msg s m e) = m_lib e"
    "m_prefix_tree (on_handshake_msg s m e) = m_prefix_tree e"
    "m_is_frozen (on_handshake_msg s m e) = m_is_frozen e"
    "m_round (on_handshake_msg s m e) = m_round e"
    by (simp_all add: on_handshake_msg_def)
qed

lemma on_handshake_ans_fields:
  "m_lib (on_handshake_ans_msg s m e) = m_lib e"
  "m_prefix_tree (on_handshake_ans_msg s m e) = m_prefix_tree e"
  "m_is_frozen (on_handshake_ans_msg s m e) = m_is_frozen e"
  "m_round (on_handshake_ans_msg s m e) = m_round e"
proof -
  have "m_lib (fold f ks e) = m_lib e \<and> m_prefix_tree (fold f ks e) = m_prefix_tree e
      \<and> m_is_frozen (fold f ks e) = m_is_frozen e \<and> m_round (fold f ks e) = m_round e"
    if "f = (\<lambda>public_key e'. e'\<lparr>m_peers := map_assign public_key s (m_peers e')\<rparr>)"
    for f ks
    unfolding that by (induction ks arbitrary: e) simp_all
  then show "m_lib (on_handshake_ans_msg s m e) = m_lib e"
    "m_prefix_tree (on_handshake_ans_msg s m e) = m_prefix_tree e"
    "m_is_frozen (on_handshake_ans_msg s m e) = m_is_frozen e"
    "m_round (on_handshake_ans_msg s m e) = m_round e"
    by (simp_all add: on_handshake_ans_msg_def)
qed

lemma process_net_msg_lib:
  assumes "process_net_msg now msg e = Some e'"
  shows "lib_advances e e'"
proof -
  note fr = round_frame_lib_advances
  have same: "\<And>x. m_lib x = m_lib e \<Longrightarrow> m_prefix_tree x = m_prefix_tree e \<Longrightarrow> lib_advances e x"
    by (rule lib_advances_same) simp_all
  show ?thesis
  proof (cases "now - receive_time msg > msg_expiration_ms")
    case True
    with assms show ?thesis by (auto simp: process_net_msg_def round_frame_refl [OF fr])
  next
    case False
    show ?thesis
    proof (cases "data msg")
      case (Prevote_msg m)
      with False assms show ?thesis
        by (auto simp: process_net_msg_def check_is_valid_msg_def on_prevote_msg_def
            intro: process_round_msg_lib [OF on_prevote_frame [OF fr]])
    next
      case (Precommit_msg m)
      with False assms show ?thesis
        by (auto simp: process_net_msg_def check_is_valid_msg_def on_precommit_msg_def
            intro: process_round_msg_lib [OF on_precommit_frame [OF fr]])
    next
      case (Finality_notice_msg m)
      with False assms show ?thesis
        by (auto simp: process_net_msg_def check_is_valid_msg_def on_finality_notice_msg_def Let_def send_fields intro!: same)
    next
      case (Finality_req_proof_msg m)
      with False assms show ?thesis
        by (auto simp: process_net_msg_def check_is_valid_msg_def on_finality_req_proof_msg_def send_fields
            split: option.splits intro!: same)
    next
      case (Proof_msg m)
      with False assms show ?thesis
        by (auto simp: process_net_msg_def check_is_valid_msg_def on_proof_msg_def Let_def on_proof_gained_fields
            split: option.splits if_splits intro!: same)
    next
      case (Handshake_msg m)
      with False assms show ?thesis
        by (auto simp: process_net_msg_def check_is_valid_msg_def on_handshake_fields intro!: same)
    next
      case (Handshake_ans_msg m)
      with False assms show ?thesis
        by (auto simp: process_net_msg_def check_is_valid_msg_def on_handshake_ans_fields intro!: same)
    qed
  qed
qed

lemma new_round_frame:
  assumes "round_frame R" and "\<And>a b x. R a b \<Longrightarrow> R a (b\<lparr>m_round := x\<rparr>)"
    and "new_round n prim bpk e = Some e'"
  shows "R e e'"
  using assms(3)
  by (auto simp: new_round_def new_randpa_round_def split: option.splits prod.splits
      dest!: prevote_frame [OF assms(1)] intro: assms(2))

lemma remove_round_lib: "lib_advances e (remove_round e)"
  by (rule lib_advances_same)
    (simp_all add: remove_round_def remove_confirmations_def block_id_clear_node)

lemma on_accepted_block_stages:
  "on_accepted_block event e =
     (case insert_tree (m_prefix_tree e)
             (prev_block_id event, [on_accepted_block_event.block_id event])
             (creator_key event) (active_bp_keys event) of
        None \<Rightarrow> Some e
      | Some tree' \<Rightarrow>
          if m_is_syncing (accepted_flags event tree' e) \<or> m_is_frozen (accepted_flags event tree' e)
          then Some (accepted_flags event tree' e)
          else (case accepted_start event (accepted_flags event tree' e) of
                  None \<Rightarrow> None
                | Some e5 \<Rightarrow> accepted_end event e5))"
  by (simp add: on_accepted_block_def accepted_flags_def accepted_start_def accepted_end_def Let_def
      split: option.splits)

lemma accepted_start_frame:
  assumes "round_frame R" and "\<And>a b x. R a b \<Longrightarrow> R a (b\<lparr>m_round := x\<rparr>)"
    and "\<And>a. R a (remove_round a)"
    and "accepted_start event e = Some e'"
  shows "R e e'"
  using assms(4)
  by (auto simp: accepted_start_def Let_def round_frame_refl [OF assms(1)] assms(3) split: if_splits
      intro: round_frame_trans [OF assms(1) assms(3)] new_round_frame [OF assms(1) assms(2)])

lemma accepted_end_frame:
  assumes "round_frame R" and "\<And>a b x. R a b \<Longrightarrow> R a (b\<lparr>m_round := x\<rparr>)"
    and "accepted_end event e = Some e'"
  shows "R e e'"
  using assms(3)
  by (auto simp: accepted_end_def round_frame_refl [OF assms(1)] split: if_splits option.splits prod.splits
      intro!: assms(2) dest: end_prevote_frame [OF assms(1)])

lemma on_accepted_block_frame:
  assumes "round_frame R" and "\<And>a b x. R a b \<Longrightarrow> R a (b\<lparr>m_round := x\<rparr>)"
    and "\<And>a. R a (remove_round a)"
    and "\<And>tree'. insert_tree (m_prefix_tree e)
             (prev_block_id event, [on_accepted_block_event.block_id event])
             (creator_key event) (active_bp_keys event) = Some tree' \<Longrightarrow> R e (accepted_flags event tree' e)"
    and "on_accepted_block event e = Some e'"
  shows "R e e'"
proof (cases "insert_tree (m_prefix_tree e)
             (prev_block_id event, [on_accepted_block_event.block_id event])
             (creator_key event) (active_bp_keys event)")
  case None
  with assms(5) show ?thesis
    by (simp add: on_accepted_block_stages round_frame_refl [OF assms(1)])
next
  case (Some tree')
  note s1 = assms(4) [OF Some]
  show ?thesis
  proof (cases "m_is_syncing (accepted_flags event tree' e) \<or> m_is_frozen (accepted_flags event tree' e)")
    case True
    with assms(5) Some s1 show ?thesis
      by (auto simp: on_accepted_block_stages)
  next
    case False
    with assms(5) Some obtain e5 where
      a: "accepted_start event (accepted_flags event tree' e) = Some e5"
      and b: "accepted_end event e5 = Some e'"
      by (auto simp: on_accepted_block_stages split: option.splits)
    from s1 accepted_start_frame [OF assms(1,2,3) a] accepted_end_frame [OF assms(1,2) b]
    show ?thesis
      using round_frame_trans [OF assms(1)] by blast
  qed
qed

lemma on_accepted_block_lib:
  assumes "on_accepted_block event e = Some e'"
  shows "lib_advances e e'"
proof (rule on_accepted_block_frame [OF round_frame_lib_advances lib_advances_round remove_round_lib _ assms])
  fix tree'
  assume "insert_tree (m_prefix_tree e)
             (prev_block_id event, [on_accepted_block_event.block_id event])
             (creator_key event) (active_bp_keys event) = Some tree'"
  then show "lib_advances e (accepted_flags event tree' e)"
    by (intro lib_advances_same) (simp_all add: accepted_flags_def insert_tree_root_id)
qed

lemma update_lib_root_id: "prefix_node.block_id (get_root (m_prefix_tree (update_lib b e))) = b"
  using update_lib_root [of b e] by (simp add: lib_is_root_def m_lib_update_lib)

lemma on_irreversible_lib: "lib_advances e (on_irreversible event e)"
  by (auto simp: on_irreversible_def lib_advances_def update_lib_root_id m_lib_update_lib lib_is_root_def)

lemma on_new_peer_lib: "lib_advances e (on_new_peer event e)"
  by (rule lib_advances_same) (simp_all add: on_new_peer_def send_fields)

lemma process_msg_lib:
  assumes "process_msg now msg e = Some e'"
  shows "lib_advances e e'"
  using assms
  by (auto simp: process_msg_def process_event_def on_irreversible_lib on_new_peer_lib
      split: randpa_message.splits randpa_event_data.splits
      dest: process_net_msg_lib on_accepted_block_lib)

lemma process_msgs_lib:
  "process_msgs ms e = Some e' \<Longrightarrow> lib_advances e e'"
proof (induction ms arbitrary: e)
  case Nil
  then show ?case by simp
next
  case (Cons m ms)
  then obtain e1 where "process_msg (fst m) (snd m) e = Some e1" "process_msgs ms e1 = Some e'"
    by (auto split: option.splits)
  with Cons.IH show ?case
    by (blast intro: lib_advances_trans process_msg_lib)
qed

lemma start_lib_is_root: "lib_is_root (start tree e)"
  by (simp add: lib_is_root_def start_def)

text \<open>
  C8. The block number of \<^verbatim>\<open>_lib\<close> never decreases. An engine is started on a tree
  and handles any sequence of events and network messages (accepted blocks,
  \<^verbatim>\<open>on_irreversible\<close> events, round messages that complete the round and call
  \<^verbatim>\<open>finish_round\<close>, proofs, handshakes); from the state it has reached it handles any
  further sequence. Then the block number of \<^verbatim>\<open>_lib\<close> after is at least the one before,
  and \<^verbatim>\<open>_lib\<close> is still the block of the root of the tree.
\<close>

theorem lib_never_decreases:
  "process_msgs ms (start tree e) = Some e1 \<Longrightarrow> process_msgs ms' e1 = Some e2
     \<Longrightarrow> get_block_num (m_lib e1) \<le> get_block_num (m_lib e2)
         \<and> prefix_node.block_id (get_root (m_prefix_tree e2)) = m_lib e2"
proof -
  assume a: "process_msgs ms (start tree e) = Some e1" and b: "process_msgs ms' e1 = Some e2"
  from process_msgs_lib [OF a] have "lib_is_root e1"
    by (simp add: lib_advances_def start_lib_is_root)
  with process_msgs_lib [OF b] show ?thesis
    by (simp add: lib_advances_def lib_is_root_def)
qed

subsection \<open>Finality notices\<close>

text \<open>
  C5, as amended. On a \<^verbatim>\<open>finality_notice\<close> the engine sends a
  \<^verbatim>\<open>finality_req_proof\<close> for the noticed round to the notifying session if and only
  if the local node is not an active block producer at the noticed block or the number
  of the noticed block is greater than \<^verbatim>\<open>_last_prooved_block_num\<close>; it sends nothing
  only when it is both an active block producer there and already at or past the block.
\<close>

theorem finality_notice_request:
  "m_out_net_channel (on_finality_notice_msg sid msg e) =
     m_out_net_channel e @
       (if \<not> is_active_bp e (finality_notice_type.best_block (network_msg.data msg))
           \<or> get_block_num (finality_notice_type.best_block (network_msg.data msg)) > m_last_prooved_block_num e
        then [(sid, Finality_req_proof_msg
                      (signed_msg \<lparr>finality_req_proof_type.round_num =
                                     finality_notice_type.round_num (network_msg.data msg)\<rparr>
                                  (m_signature_providers e)))]
        else [])"
  by (auto simp: on_finality_notice_msg_def Let_def send_def)

subsection \<open>An external proof\<close>

lemma push_front_hd: "push_front p buf = p # take 1 buf"
  by (simp add: push_front_def proofs_cache_size_def numeral_2_eq_2)

lemma on_proof_gained_eq:
  "on_proof_gained p e =
     bcast (Finality_notice_msg
              (signed_msg \<lparr>finality_notice_type.round_num = proof_type.round_num p,
                           best_block = proof_type.best_block p\<rparr> (m_signature_providers e)))
       (e\<lparr>m_last_proofs := push_front p (m_last_proofs e),
          m_last_prooved_block_num := get_block_num (proof_type.best_block p),
          m_finality_channel := m_finality_channel e @ [proof_type.best_block p]\<rparr>)"
  by (simp add: on_proof_gained_def Let_def)

lemma on_proof_msg_accepted:
  assumes "\<not> m_is_syncing e" and "\<not> m_is_frozen e"
    and "m_last_prooved_block_num e < get_block_num (proof_type.best_block (network_msg.data msg))"
    and "get_block_num (m_lib e) < get_block_num (proof_type.best_block (network_msg.data msg))"
    and "\<forall>r. m_round e = Some r \<longrightarrow> state r \<noteq> Done"
    and "validate_proof e (network_msg.data msg)"
  shows "on_proof_msg sid msg e = on_proof_gained (network_msg.data msg) (proof_round_done (network_msg.data msg) e)"
  using assms
  by (auto simp: on_proof_msg_def Let_def proof_round_done_def get_state_def not_le [symmetric]
      split: option.splits)

lemma proof_round_done_fields:
  "m_lib (proof_round_done p e) = m_lib e"
  "m_last_proofs (proof_round_done p e) = m_last_proofs e"
  "m_finality_channel (proof_round_done p e) = m_finality_channel e"
  "m_out_net_channel (proof_round_done p e) = m_out_net_channel e"
  "m_peer_messages (proof_round_done p e) = m_peer_messages e"
  "m_peers (proof_round_done p e) = m_peers e"
  "m_signature_providers (proof_round_done p e) = m_signature_providers e"
  "m_round (proof_round_done p e)
     = map_option (\<lambda>r. if num r = proof_type.round_num p then r\<lparr>state := Done\<rparr> else r) (m_round e)"
  by (simp_all add: proof_round_done_def get_num_def set_state_def split: option.splits)

lemma on_proof_msg_repeated:
  "on_proof_msg sid msg (on_proof_gained (network_msg.data msg) e) = on_proof_gained (network_msg.data msg) e"
  by (simp add: on_proof_msg_def [of sid] Let_def on_proof_gained_eq bcast_eq)

text \<open>
  C1, as amended. The engine is neither syncing nor frozen, its round (if any) is not
  done, and it handles a \<^verbatim>\<open>proof_msg\<close> with a valid proof for a block whose number
  exceeds both \<^verbatim>\<open>_last_prooved_block_num\<close> and the number of \<^verbatim>\<open>_lib\<close>. Then
  \<^verbatim>\<open>_last_prooved_block_num\<close> becomes the number of that block, the proof is pushed to
  the front of the proof cache, the finality channel emits the block once, the
  \<^verbatim>\<open>finality_notice\<close> is sent once to every peer (unless its digest is already in the
  cache of broadcast messages), the round is marked done when it has the round number of
  the proof, and the same \<^verbatim>\<open>proof_msg\<close> handled again changes nothing and sends nothing.
  The handler itself leaves \<^verbatim>\<open>_lib\<close> as it is: only \<^verbatim>\<open>update_lib\<close> sets it, on an
  \<^verbatim>\<open>on_irreversible\<close> event or at the completion of the local round.
\<close>

theorem external_proof_handled:
  assumes "\<not> m_is_syncing e" and "\<not> m_is_frozen e"
    and "m_last_prooved_block_num e < get_block_num (proof_type.best_block (network_msg.data msg))"
    and "get_block_num (m_lib e) < get_block_num (proof_type.best_block (network_msg.data msg))"
    and "\<forall>r. m_round e = Some r \<longrightarrow> state r \<noteq> Done"
    and "validate_proof e (network_msg.data msg)"
  shows "m_lib (on_proof_msg sid msg e) = m_lib e
    \<and> m_last_prooved_block_num (on_proof_msg sid msg e)
        = get_block_num (proof_type.best_block (network_msg.data msg))
    \<and> m_last_proofs (on_proof_msg sid msg e) = push_front (network_msg.data msg) (m_last_proofs e)
    \<and> m_finality_channel (on_proof_msg sid msg e)
        = m_finality_channel e @ [proof_type.best_block (network_msg.data msg)]
    \<and> m_out_net_channel (on_proof_msg sid msg e)
        = m_out_net_channel e @
            (let notice = Finality_notice_msg
                   (signed_msg \<lparr>finality_notice_type.round_num = proof_type.round_num (network_msg.data msg),
                                best_block = proof_type.best_block (network_msg.data msg)\<rparr>
                               (m_signature_providers e))
             in if notice \<in> set (m_peer_messages e) then []
                else map (\<lambda>peer. (snd peer, notice)) (m_peers e))
    \<and> m_round (on_proof_msg sid msg e)
        = map_option (\<lambda>r. if num r = proof_type.round_num (network_msg.data msg) then r\<lparr>state := Done\<rparr> else r)
            (m_round e)
    \<and> on_proof_msg sid' msg (on_proof_msg sid msg e) = on_proof_msg sid msg e"
  unfolding on_proof_msg_accepted [OF assms] on_proof_msg_repeated
  by (simp add: on_proof_gained_eq bcast_eq proof_round_done_fields Let_def)

lemma ex_full_node3_fields:
  "m_is_syncing ex_full_node3 = False" "m_is_frozen ex_full_node3 = False"
  "m_last_prooved_block_num ex_full_node3 = 0" "m_lib ex_full_node3 = ex_B0"
  "m_round ex_full_node3 = None" "m_peers ex_full_node3 = [(9, 7)]"
  "m_peer_messages ex_full_node3 = []" "m_signature_providers ex_full_node3 = [99]"
  "m_finality_channel ex_full_node3 = []" "m_last_proofs ex_full_node3 = []"
  "m_out_net_channel ex_full_node3 = [(7, Handshake_ans_msg (signed_msg \<lparr>handshake_ans_type.lib = ex_B0\<rparr> [99]))]"
  "m_is_block_producer ex_full_node3 = False"
  by (simp_all add: ex_full_node3_def ex_full_node_def start_def randpa_new_def get_root_def ex_tree0_def)

lemma ex_proof_valid: "validate_proof ex_full_node3 ex_proof"
  by (simp add: validate_proof_def Let_def validate_prevotes_eq validate_precommits_eq
      randpa_validate_prevote_def randpa_validate_precommit_def
      ex_defs find_tree_def start_def randpa_new_def)

lemma ex_proof_msg_data: "network_msg.data ex_proof_msg = ex_proof"
  by (simp add: ex_proof_msg_def signed_msg_def)

lemma ex_proof_fields: "proof_type.best_block ex_proof = ex_B3" "proof_type.round_num ex_proof = 1"
  by (simp_all add: ex_proof_def)

lemma ex_block_nums:
  "get_block_num ex_B0 = 0" "get_block_num ex_B1 = 1" "get_block_num ex_B2 = 2" "get_block_num ex_B3 = 3"
  by (simp_all add: get_block_num_def ex_B0_def ex_B1_def ex_B2_def ex_B3_def)

theorem external_proof_lib_counterexample:
  "m_lib ex_full_node3 = ex_B0
   \<and> validate_proof ex_full_node3 (network_msg.data ex_proof_msg)
   \<and> proof_type.best_block (network_msg.data ex_proof_msg) = ex_B3
   \<and> m_last_prooved_block_num ex_full_node3 < get_block_num ex_B3
   \<and> get_block_num (m_lib ex_full_node3) < get_block_num ex_B3
   \<and> m_lib (on_proof_msg 7 ex_proof_msg ex_full_node3) \<noteq> ex_B3"
proof -
  have "on_proof_msg 7 ex_proof_msg ex_full_node3
      = on_proof_gained (network_msg.data ex_proof_msg)
          (proof_round_done (network_msg.data ex_proof_msg) ex_full_node3)"
    by (rule on_proof_msg_accepted)
      (simp_all add: ex_proof_valid ex_proof_msg_data ex_proof_fields ex_full_node3_fields ex_block_nums)
  then have "m_lib (on_proof_msg 7 ex_proof_msg ex_full_node3) = ex_B0"
    by (simp add: on_proof_gained_fields proof_round_done_fields ex_full_node3_fields)
  then show ?thesis
    by (simp add: ex_proof_valid ex_proof_msg_data ex_proof_fields ex_full_node3_fields
        get_block_num_def ex_B0_def ex_B3_def)
qed

theorem external_proof_handled_witness:
  "m_lib (on_proof_msg 7 ex_proof_msg ex_full_node3) = ex_B0
   \<and> m_last_prooved_block_num (on_proof_msg 7 ex_proof_msg ex_full_node3) = 3
   \<and> m_last_proofs (on_proof_msg 7 ex_proof_msg ex_full_node3) = [ex_proof]
   \<and> m_finality_channel (on_proof_msg 7 ex_proof_msg ex_full_node3) = [ex_B3]
   \<and> m_out_net_channel (on_proof_msg 7 ex_proof_msg ex_full_node3)
        = m_out_net_channel ex_full_node3 @ [(7, ex_finality_notice)]
   \<and> on_proof_msg 8 ex_proof_msg (on_proof_msg 7 ex_proof_msg ex_full_node3)
        = on_proof_msg 7 ex_proof_msg ex_full_node3"
proof -
  note d = ex_proof_msg_data and b = ex_proof_fields
  have h1: "\<not> m_is_syncing ex_full_node3" and h2: "\<not> m_is_frozen ex_full_node3"
    by (simp_all add: ex_full_node3_fields)
  have h3: "m_last_prooved_block_num ex_full_node3
      < get_block_num (proof_type.best_block (network_msg.data ex_proof_msg))"
    by (simp add: d b ex_full_node3_fields ex_B3_def get_block_num_def)
  have h4: "get_block_num (m_lib ex_full_node3)
      < get_block_num (proof_type.best_block (network_msg.data ex_proof_msg))"
    by (simp add: d b ex_full_node3_fields ex_B3_def ex_B0_def get_block_num_def)
  have h5: "\<forall>r. m_round ex_full_node3 = Some r \<longrightarrow> state r \<noteq> Done"
    by (simp add: ex_full_node3_fields)
  have h6: "validate_proof ex_full_node3 (network_msg.data ex_proof_msg)"
    by (simp add: d ex_proof_valid)
  show ?thesis
    using external_proof_handled [OF h1 h2 h3 h4 h5 h6, of 7 8]
    by (simp add: d b ex_full_node3_fields push_front_hd ex_finality_notice_def
        get_block_num_def ex_B3_def)
qed

theorem finality_notice_request_witness:
  "m_out_net_channel (on_finality_notice_msg 7 (ex_notice ex_B3) ex_full_node3)
     = m_out_net_channel ex_full_node3
         @ [(7, Finality_req_proof_msg (signed_msg \<lparr>finality_req_proof_type.round_num = 1\<rparr> [99]))]"
  using finality_notice_request [of 7 "ex_notice ex_B3" ex_full_node3]
  by (simp add: ex_notice_def signed_msg_def is_active_bp_def ex_full_node3_fields round_num_def
      round_width_def get_block_num_def ex_B3_def)

lemma ex_proved_node_eq:
  "ex_proved_node = on_proof_gained ex_proof (proof_round_done ex_proof ex_full_node3)"
proof -
  have "on_proof_msg 7 ex_proof_msg ex_full_node3
      = on_proof_gained (network_msg.data ex_proof_msg)
          (proof_round_done (network_msg.data ex_proof_msg) ex_full_node3)"
    by (rule on_proof_msg_accepted)
      (simp_all add: ex_proof_valid ex_proof_msg_data ex_proof_fields ex_full_node3_fields ex_block_nums)
  then show ?thesis
    by (simp add: ex_proved_node_def ex_proof_msg_data)
qed

lemma ex_proved_node_fields:
  "m_last_prooved_block_num ex_proved_node = 3"
  "m_is_block_producer ex_proved_node = False"
  "m_signature_providers ex_proved_node = [99]"
  by (simp_all add: ex_proved_node_eq on_proof_gained_eq bcast_eq proof_round_done_fields
      proof_round_done_def ex_full_node3_fields ex_proof_fields ex_block_nums)

theorem finality_notice_request_counterexample:
  "\<not> (get_block_num ex_B3 > m_last_prooved_block_num ex_proved_node \<and> \<not> is_active_bp ex_proved_node ex_B3)
   \<and> m_out_net_channel (on_finality_notice_msg 7 (ex_notice ex_B3) ex_proved_node)
       = m_out_net_channel ex_proved_node
           @ [(7, Finality_req_proof_msg (signed_msg \<lparr>finality_req_proof_type.round_num = 1\<rparr> [99]))]"
  by (simp add: on_finality_notice_msg_def Let_def send_def is_active_bp_def ex_proved_node_fields
      ex_notice_def signed_msg_def ex_block_nums round_num_def round_width_def)

subsection \<open>The frozen flag\<close>

lemma update_lib_fields:
  "m_is_frozen (update_lib b e) = m_is_frozen e"
  "m_is_syncing (update_lib b e) = m_is_syncing e"
  "m_round (update_lib b e) = m_round e"
  "m_last_proofs (update_lib b e) = m_last_proofs e"
  "m_last_prooved_block_num (update_lib b e) = m_last_prooved_block_num e"
  "m_self_messages (update_lib b e) = m_self_messages e"
  "m_peer_messages (update_lib b e) = m_peer_messages e"
  "m_out_net_channel (update_lib b e) = m_out_net_channel e"
  "m_finality_channel (update_lib b e) = m_finality_channel e"
  by (simp_all add: update_lib_def Let_def)

lemma round_frame_frozen_kept: "round_frame frozen_kept"
  unfolding round_frame_def frozen_kept_def
  by (simp add: bcast_fields update_lib_fields on_proof_gained_fields)

lemma frozen_kept_round: "frozen_kept a b \<Longrightarrow> frozen_kept a (b\<lparr>m_round := x\<rparr>)"
  by (simp add: frozen_kept_def)

lemma frozen_kept_remove_round: "frozen_kept a (remove_round a)"
  by (simp add: frozen_kept_def remove_round_def)

lemma process_round_msg_frozen:
  assumes "\<And>r e r' e'. round_on (r, e) = Some (r', e') \<Longrightarrow> frozen_kept e e'"
    and "process_round_msg wrap rn round_on e = Some e'"
  shows "m_is_frozen e' = m_is_frozen e"
  using assms(2)
  by (auto simp: process_round_msg_def Let_def bcast_fields frozen_kept_def
      split: if_splits option.splits prod.splits dest!: assms(1) [unfolded frozen_kept_def])

lemma on_proof_msg_frozen: "m_is_frozen (on_proof_msg sid msg e) = m_is_frozen e"
  by (simp add: on_proof_msg_def Let_def on_proof_gained_fields split: option.splits)

lemma on_finality_notice_frozen: "m_is_frozen (on_finality_notice_msg sid m e) = m_is_frozen e"
  by (simp add: on_finality_notice_msg_def Let_def send_fields)

lemma on_finality_req_proof_frozen: "m_is_frozen (on_finality_req_proof_msg sid m e) = m_is_frozen e"
  by (simp add: on_finality_req_proof_msg_def send_fields split: option.splits)

lemma process_net_msg_frozen:
  assumes "process_net_msg now msg e = Some e'"
  shows "m_is_frozen e' = m_is_frozen e"
proof (cases "now - receive_time msg > msg_expiration_ms")
  case True
  with assms show ?thesis by (simp add: process_net_msg_def)
next
  case False
  note fr = round_frame_frozen_kept
  show ?thesis
  proof (cases "data msg")
    case (Prevote_msg m)
    with False assms have "process_round_msg (Prevote_msg m)
        (prevote_type.round_num (network_msg.data m)) (on_prevote m) e = Some e'"
      by (simp add: process_net_msg_def check_is_valid_msg_def on_prevote_msg_def)
    then show ?thesis
      by (rule process_round_msg_frozen [rotated]) (rule on_prevote_frame [OF fr])
  next
    case (Precommit_msg m)
    with False assms have "process_round_msg (Precommit_msg m)
        (precommit_type.round_num (network_msg.data m)) (on_precommit m) e = Some e'"
      by (simp add: process_net_msg_def check_is_valid_msg_def on_precommit_msg_def)
    then show ?thesis
      by (rule process_round_msg_frozen [rotated]) (rule on_precommit_frame [OF fr])
  next
    case (Finality_notice_msg m)
    with False assms show ?thesis
      by (auto simp: process_net_msg_def check_is_valid_msg_def on_finality_notice_frozen)
  next
    case (Finality_req_proof_msg m)
    with False assms show ?thesis
      by (auto simp: process_net_msg_def check_is_valid_msg_def on_finality_req_proof_frozen)
  next
    case (Proof_msg m)
    with False assms show ?thesis
      by (auto simp: process_net_msg_def check_is_valid_msg_def on_proof_msg_frozen)
  next
    case (Handshake_msg m)
    with False assms show ?thesis
      by (auto simp: process_net_msg_def check_is_valid_msg_def on_handshake_fields)
  next
    case (Handshake_ans_msg m)
    with False assms show ?thesis
      by (auto simp: process_net_msg_def check_is_valid_msg_def on_handshake_ans_fields)
  qed
qed

lemma on_accepted_block_frozen:
  assumes "on_accepted_block event e = Some e'"
  shows "m_is_frozen e' =
           (case insert_tree (m_prefix_tree e)
                   (prev_block_id event, [on_accepted_block_event.block_id event])
                   (creator_key event) (active_bp_keys event) of
              None \<Rightarrow> m_is_frozen e
            | Some tree' \<Rightarrow>
                get_block_num (on_accepted_block_event.block_id event) - get_block_num (m_lib e)
                  > max_finality_lag_blocks)"
proof (cases "insert_tree (m_prefix_tree e)
             (prev_block_id event, [on_accepted_block_event.block_id event])
             (creator_key event) (active_bp_keys event)")
  case None
  with assms show ?thesis by (simp add: on_accepted_block_stages)
next
  case (Some tree')
  define e3 where "e3 = accepted_flags event tree' e"
  have f3: "m_is_frozen e3 = (get_block_num (on_accepted_block_event.block_id event) - get_block_num (m_lib e)
                  > max_finality_lag_blocks)"
    by (simp add: e3_def accepted_flags_def)
  show ?thesis
  proof (cases "m_is_syncing e3 \<or> m_is_frozen e3")
    case True
    with assms Some have "e' = e3"
      by (simp add: on_accepted_block_stages e3_def)
    with Some f3 show ?thesis by simp
  next
    case False
    with assms Some obtain e5 where
      a: "accepted_start event e3 = Some e5" and b: "accepted_end event e5 = Some e'"
      by (auto simp: on_accepted_block_stages e3_def split: option.splits)
    from accepted_start_frame [OF round_frame_frozen_kept frozen_kept_round frozen_kept_remove_round a]
      accepted_end_frame [OF round_frame_frozen_kept frozen_kept_round b]
    have "m_is_frozen e' = m_is_frozen e3"
      by (simp add: frozen_kept_def)
    with Some f3 show ?thesis by simp
  qed
qed

lemma on_irreversible_frozen: "m_is_frozen (on_irreversible event e) = m_is_frozen e"
  by (simp add: on_irreversible_def update_lib_fields)

lemma on_new_peer_frozen: "m_is_frozen (on_new_peer event e) = m_is_frozen e"
  by (simp add: on_new_peer_def send_fields)

text \<open>
  C4, as amended. \<^verbatim>\<open>_is_frozen\<close> is not sticky. The handler of an accepted block whose
  block is inserted into the tree assigns it anew: it is true exactly when the 32-bit
  difference of the number of the block and the number of \<^verbatim>\<open>_lib\<close> exceeds the
  maximal finality lag. Every other event or message, and an accepted block whose
  parent is not in the tree, leaves it as it is.
\<close>

theorem is_frozen_recomputed:
  assumes "process_msg now msg e = Some e'"
  shows "m_is_frozen e' =
           (case msg of
              Event (On_accepted_block event) \<Rightarrow>
                (case insert_tree (m_prefix_tree e)
                        (prev_block_id event, [on_accepted_block_event.block_id event])
                        (creator_key event) (active_bp_keys event) of
                   None \<Rightarrow> m_is_frozen e
                 | Some tree' \<Rightarrow>
                     get_block_num (on_accepted_block_event.block_id event) - get_block_num (m_lib e)
                       > max_finality_lag_blocks)
            | _ \<Rightarrow> m_is_frozen e)"
proof (cases msg)
  case (Net_msg m)
  with assms show ?thesis
    by (simp add: process_msg_def process_net_msg_frozen)
next
  case (Event ev)
  show ?thesis
  proof (cases ev)
    case (On_accepted_block event)
    with Event assms show ?thesis
      by (simp add: process_msg_def process_event_def on_accepted_block_frozen)
  next
    case (On_irreversible event)
    with Event assms show ?thesis
      by (auto simp: process_msg_def process_event_def on_irreversible_frozen)
  next
    case (On_new_peer event)
    with Event assms show ?thesis
      by (auto simp: process_msg_def process_event_def on_new_peer_frozen)
  qed
qed

theorem is_frozen_sticky_counterexample:
  "map_option m_is_frozen (process_msgs ex_freeze_msgs ex_full_node) = Some True
   \<and> map_option m_is_frozen (process_msgs (ex_freeze_msgs @ ex_thaw_msgs) ex_full_node) = Some False"
  by code_simp

lemma ex_bp_node_start: "ex_bp_node = start ex_tree0 (randpa_new 99 ex_tree0
    \<lparr>m_is_block_producer := True, m_signature_providers := [1], m_public_keys := [1],
     m_sig_provs_by_key := [(1, 1)]\<rparr>)"
  by (simp add: ex_bp_node_def set_signature_providers_def set_type_block_producer_def randpa_new_def)

lemma ex_round_lib_before: "map_option m_lib (process_msgs ex_prevote_phase ex_bp_node) = Some ex_B0"
  by code_simp

lemma ex_round_lib_after:
  "map_option m_lib (process_msgs (ex_prevote_phase @ ex_precommit_phase) ex_bp_node) = Some ex_B1"
  by code_simp

theorem lib_never_decreases_witness:
  "\<exists>e1 e2. process_msgs ex_prevote_phase ex_bp_node = Some e1
      \<and> process_msgs ex_precommit_phase e1 = Some e2
      \<and> m_lib e1 = ex_B0 \<and> m_lib e2 = ex_B1
      \<and> get_block_num (m_lib e1) \<le> get_block_num (m_lib e2)
      \<and> prefix_node.block_id (get_root (m_prefix_tree e2)) = ex_B1"
proof -
  from ex_round_lib_before obtain e1 where
    h1: "process_msgs ex_prevote_phase ex_bp_node = Some e1" and l1: "m_lib e1 = ex_B0"
    by auto
  from ex_round_lib_after h1 obtain e2 where
    h2: "process_msgs ex_precommit_phase e1 = Some e2" and l2: "m_lib e2 = ex_B1"
    by (auto simp: process_msgs_append)
  from lib_never_decreases [OF h1 [unfolded ex_bp_node_start] h2] h1 h2 l1 l2
  show ?thesis by simp
qed

theorem is_frozen_recomputed_witness:
  "map_option m_is_frozen
     (process_msg 0 (snd (ex_accept ex_B1 ex_B0 1 ex_bps)) (ex_full_node\<lparr>m_is_frozen := True\<rparr>)) = Some False"
proof -
  have "process_msg 0 (snd (ex_accept ex_B1 ex_B0 1 ex_bps)) (ex_full_node\<lparr>m_is_frozen := True\<rparr>) \<noteq> None"
    by code_simp
  then obtain e' where
    h: "process_msg 0 (snd (ex_accept ex_B1 ex_B0 1 ex_bps)) (ex_full_node\<lparr>m_is_frozen := True\<rparr>) = Some e'"
    by auto
  have ins: "insert_tree (m_prefix_tree (ex_full_node\<lparr>m_is_frozen := True\<rparr>)) (ex_B0, [ex_B1]) 1 ex_bps \<noteq> None"
    by (simp add: insert_tree_def find_tree_def ex_full_node_def start_def ex_tree0_def)
  from is_frozen_recomputed [OF h] ins have "m_is_frozen e' = False"
    by (auto simp: ex_accept_def ex_full_node_def start_def get_root_def ex_tree0_def ex_B0_def ex_B1_def
        get_block_num_def max_finality_lag_blocks_def split: option.splits)
  with h show ?thesis by simp
qed

subsection \<open>The start of a round\<close>

lemma no_confirmations_clear_node: "no_confirmations (clear_node n)"
  by (induction n) (simp add: list_all_iff)

lemma round_frame_dedup_kept: "round_frame dedup_kept"
  unfolding round_frame_def dedup_kept_def
  by (simp add: bcast_fields update_lib_fields on_proof_gained_fields on_proof_gained_def Let_def)

lemma for_each_invariant:
  assumes "\<And>x s s'. P s \<Longrightarrow> body x s = Some s' \<Longrightarrow> P s'"
    and "P s" and "for_each xs body s = Some s'"
  shows "P s'"
  using assms(2,3)
proof (induction xs arbitrary: s)
  case Nil
  then show ?case by simp
next
  case (Cons x xs)
  then obtain s1 where "body x s = Some s1" "for_each xs body s1 = Some s'"
    by (auto split: option.splits)
  with Cons.IH assms(1) Cons.prems(1) show ?case by blast
qed

lemma same_round_refl [simp]: "same_round r r"
  by (simp add: same_round_def)

lemma same_round_trans: "same_round a b \<Longrightarrow> same_round b c \<Longrightarrow> same_round a c"
  by (simp add: same_round_def)

lemma finish_round_same: "finish_round (r, e) = Some (r', e') \<Longrightarrow> same_round r r'"
  by (auto simp: finish_round_def finish_def same_round_def split: if_splits option.splits prod.splits)

lemma sync_best_node_same: "same_round r (sync_best_node n r)"
  by (simp add: sync_best_node_def same_round_def split: option.splits)

lemma add_prevote_same: "add_prevote msg (r, e) = Some (r', e') \<Longrightarrow> same_round r r'"
  using sync_best_node_same
  by (auto simp: add_prevote_def Let_def same_round_def split: if_splits option.splits prod.splits)

lemma add_precommit_same: "add_precommit msg (r, e) = Some (r', e') \<Longrightarrow> same_round r r'"
  by (auto simp: add_precommit_def Let_def same_round_def
      split: if_splits option.splits prod.splits bool.splits dest!: finish_round_same)

lemma for_each_same:
  assumes "\<And>x r e r' e'. body x (r, e) = Some (r', e') \<Longrightarrow> same_round r r'"
    and "for_each xs body (r, e) = Some (r', e')"
  shows "same_round r r'"
proof -
  have "same_round r (fst (r', e'))"
    by (rule for_each_invariant [where P = "\<lambda>s. same_round r (fst s)", OF _ _ assms(2)])
      (auto intro: same_round_trans [OF _ assms(1)])
  then show ?thesis by simp
qed

lemma prevote_same: "prevote (r, e) = Some (r', e') \<Longrightarrow> same_round (r\<lparr>state := Prevote\<rparr>) r'"
proof -
  have loop: "\<And>pv sps r0 e0 r1 e1.
      for_each sps (\<lambda>sig_prov. add_prevote (signed_msg pv [sig_prov])) (r0, e0) = Some (r1, e1)
        \<Longrightarrow> same_round r0 r1"
    by (rule for_each_same) (auto dest: add_prevote_same)
  show "prevote (r, e) = Some (r', e') \<Longrightarrow> same_round (r\<lparr>state := Prevote\<rparr>) r'"
    by (auto simp: prevote_def Let_def split: if_splits option.splits prod.splits dest!: loop)
qed

lemma precommit_same: "precommit (r, e) = Some (r', e') \<Longrightarrow> same_round r r'"
proof -
  have loop: "\<And>pc sps r0 e0 r1 e1.
      for_each sps (\<lambda>sig_prov. add_precommit (signed_msg pc [sig_prov])) (r0, e0) = Some (r1, e1)
        \<Longrightarrow> same_round r0 r1"
    by (rule for_each_same) (auto dest: add_precommit_same)
  show "precommit (r, e) = Some (r', e') \<Longrightarrow> same_round r r'"
    by (auto simp: precommit_def Let_def split: if_splits option.splits prod.splits dest!: loop)
       (simp add: same_round_def)
qed

lemma end_prevote_same: "end_prevote (r, e) = Some (r', e') \<Longrightarrow> same_round r r'"
  by (auto simp: end_prevote_def Let_def split: if_splits option.splits dest!: precommit_same)
     (simp_all add: same_round_def)

lemma new_round_result:
  assumes "new_round n prim bpk e = Some e'"
  shows "\<exists>r'. m_round e' = Some r' \<and> num r' = n \<and> primary r' = prim
            \<and> signature_providers r' = get_active_signature_providers e bpk"
  using assms
  by (auto simp: new_round_def new_randpa_round_def same_round_def
      split: option.splits prod.splits dest!: prevote_same)

lemma accepted_end_round:
  assumes "accepted_end event e = Some e'"
  shows "(m_round e = None \<longrightarrow> m_round e' = None)
       \<and> (\<forall>r. m_round e = Some r \<longrightarrow> (\<exists>r'. m_round e' = Some r' \<and> same_round r r'))"
  using assms
  by (auto simp: accepted_end_def should_end_prevote_def
      split: if_splits option.splits prod.splits dest: end_prevote_same)

lemma remove_round_fields:
  "m_peer_messages (remove_round e) = []"
  "m_self_messages (remove_round e) = []"
  "m_round (remove_round e) = None"
  "no_confirmations (root (m_prefix_tree (remove_round e)))"
  "m_sig_provs_by_key (remove_round e) = m_sig_provs_by_key e"
  by (simp_all add: remove_round_def remove_confirmations_def no_confirmations_clear_node)

lemma get_active_signature_providers_set:
  "finite bpk \<Longrightarrow>
     set (get_active_signature_providers e bpk)
       = {sp. \<exists>key\<in>bpk. map_of (m_sig_provs_by_key e) key = Some sp}"
  by (auto simp: get_active_signature_providers_def split: option.splits)

lemma should_start_round_iff:
  "should_start_round e b \<longleftrightarrow>
     1 \<le> get_block_num b \<and> (m_round e = None \<or> (\<exists>r. m_round e = Some r \<and> num r < round_num b))"
proof -
  have "(1 \<le> get_block_num b) = (\<not> get_block_num b < 1)"
    by (simp only: not_less)
  then show ?thesis
    by (auto simp: should_start_round_def get_num_def split: option.splits)
qed

lemma find_node_clear_node:
  "find_node (clear_node n) i = map_option clear_node (find_node n i)"
  "find_nodes (map clear_node ns) i = map_option clear_node (find_nodes ns i)"
  by (induction n i and ns i rule: find_node_find_nodes.induct) (auto split: option.splits)

lemma active_bp_keys_clear_node: "prefix_node.active_bp_keys (clear_node n) = prefix_node.active_bp_keys n"
  by (cases n) simp

lemma is_active_bp_remove_round: "is_active_bp (remove_round e) b = is_active_bp e b"
  by (auto simp: is_active_bp_def remove_round_def remove_confirmations_def find_tree_def
      find_node_clear_node active_bp_keys_clear_node split: option.splits)

lemma is_active_bp_accepted_flags:
  "is_active_bp (accepted_flags event tree' e) b = is_active_bp (e\<lparr>m_prefix_tree := tree'\<rparr>) b"
  by (simp add: is_active_bp_def accepted_flags_def split: option.splits)

lemma accepted_end_self:
  assumes "accepted_end event e = Some e'"
  shows "m_self_messages e' = m_self_messages e"
proof -
  have "dedup_kept a b \<Longrightarrow> dedup_kept a (b\<lparr>m_round := x\<rparr>)" for a b x
    by (simp add: dedup_kept_def)
  from accepted_end_frame [OF round_frame_dedup_kept this assms] show ?thesis
    by (simp add: dedup_kept_def)
qed

lemma new_round_self:
  assumes "new_round n prim bpk e = Some e'"
  shows "m_self_messages e' = m_self_messages e"
proof -
  have "dedup_kept a b \<Longrightarrow> dedup_kept a (b\<lparr>m_round := x\<rparr>)" for a b x
    by (simp add: dedup_kept_def)
  from new_round_frame [OF round_frame_dedup_kept this assms] show ?thesis
    by (simp add: dedup_kept_def)
qed

text \<open>
  C7. An accepted-block event for a block \<open>B\<close> whose parent is in the tree is handled
  while neither syncing nor frozen; \<open>B\<close> follows another block, so its number is at
  least 1 (the number \<open>round_num(B)\<close> is computed from). A new round is started if and
  only if no round exists or \<open>round_num(B)\<close> is greater than the number of the current
  round. On starting, both dedup caches are cleared, every confirmation in the tree is
  cleared and the old round is dropped; then a round is constructed only if one of the
  public keys of the engine is among the active keys of \<open>B\<close> in the tree (exactly when
  \<^verbatim>\<open>is_active_bp\<close> holds there), and the handler goes on to the end of the prevote
  phase. When the handler returns, the cache of handled messages is still empty, and
  the round (if one was constructed) has the number \<open>round_num(B)\<close>, the creator key of
  the event as primary, and as signature providers those of the engine's providers
  whose key is among the active keys of the event. Without a start the handler only
  goes on to the end of the prevote phase.
\<close>

theorem round_start_on_accepted_block:
  assumes "insert_tree (m_prefix_tree e)
             (prev_block_id event, [on_accepted_block_event.block_id event])
             (creator_key event) (active_bp_keys event) = Some tree'"
    and "\<not> sync event"
    and "\<not> get_block_num (on_accepted_block_event.block_id event) - get_block_num (m_lib e)
            > max_finality_lag_blocks"
    and "1 \<le> get_block_num (on_accepted_block_event.block_id event)"
  shows "(let B = on_accepted_block_event.block_id event;
              e3 = accepted_flags event tree' e;
              e4 = remove_round e3
          in (should_start_round e3 B \<longleftrightarrow>
                m_round e = None \<or> (\<exists>r. m_round e = Some r \<and> num r < round_num B))
           \<and> (should_start_round e3 B \<longrightarrow>
                m_peer_messages e4 = [] \<and> m_self_messages e4 = []
                \<and> no_confirmations (root (m_prefix_tree e4)) \<and> m_round e4 = None
                \<and> on_accepted_block event e =
                    (case (if is_active_bp e4 B
                           then new_round (round_num B) (creator_key event) (active_bp_keys event) e4
                           else Some e4) of
                       None \<Rightarrow> None
                     | Some e5 \<Rightarrow> accepted_end event e5)
                \<and> (\<forall>e'. on_accepted_block event e = Some e' \<longrightarrow>
                      m_self_messages e' = []
                      \<and> (is_active_bp (e\<lparr>m_prefix_tree := tree'\<rparr>) B \<longrightarrow>
                           (\<exists>r'. m_round e' = Some r' \<and> num r' = round_num B
                              \<and> primary r' = creator_key event
                              \<and> signature_providers r'
                                   = get_active_signature_providers e (active_bp_keys event)))
                      \<and> (\<not> is_active_bp (e\<lparr>m_prefix_tree := tree'\<rparr>) B \<longrightarrow> m_round e' = None)))
           \<and> (\<not> should_start_round e3 B \<longrightarrow> on_accepted_block event e = accepted_end event e3)
           \<and> (finite (active_bp_keys event) \<longrightarrow>
                set (get_active_signature_providers e (active_bp_keys event))
                  = {sp. \<exists>key\<in>active_bp_keys event. map_of (m_sig_provs_by_key e) key = Some sp}))"
proof -
  define B where "B = on_accepted_block_event.block_id event"
  define e3 where "e3 = accepted_flags event tree' e"
  define e4 where "e4 = remove_round e3"
  have gates: "\<not> m_is_syncing e3" "\<not> m_is_frozen e3"
    using assms(2,3) by (simp_all add: e3_def accepted_flags_def)
  have r3: "m_round e3 = m_round e"
    by (simp add: e3_def accepted_flags_def)
  have whole: "on_accepted_block event e =
      (case accepted_start event e3 of None \<Rightarrow> None | Some e5 \<Rightarrow> accepted_end event e5)"
    using assms(1) gates by (simp add: on_accepted_block_stages e3_def)
  have c1: "should_start_round e3 B \<longleftrightarrow>
      m_round e = None \<or> (\<exists>r. m_round e = Some r \<and> num r < round_num B)"
    using assms(4) by (simp add: should_start_round_iff r3 B_def)
  have c3: "on_accepted_block event e = accepted_end event e3" if "\<not> should_start_round e3 B"
    using that by (simp add: whole accepted_start_def B_def)
  have act: "is_active_bp e4 B = is_active_bp (e\<lparr>m_prefix_tree := tree'\<rparr>) B"
    by (simp add: e4_def e3_def is_active_bp_remove_round is_active_bp_accepted_flags)
  have prov: "get_active_signature_providers e4 bpk = get_active_signature_providers e bpk" for bpk
    by (simp add: get_active_signature_providers_def e4_def e3_def remove_round_fields accepted_flags_def)
  have c2a: "on_accepted_block event e =
      (case (if is_active_bp e4 B
             then new_round (round_num B) (creator_key event) (active_bp_keys event) e4
             else Some e4) of
         None \<Rightarrow> None
       | Some e5 \<Rightarrow> accepted_end event e5)" if "should_start_round e3 B"
    using that by (simp add: whole accepted_start_def B_def Let_def e4_def)
  have c2b: "m_self_messages e' = []
      \<and> (is_active_bp (e\<lparr>m_prefix_tree := tree'\<rparr>) B \<longrightarrow>
           (\<exists>r'. m_round e' = Some r' \<and> num r' = round_num B
              \<and> primary r' = creator_key event
              \<and> signature_providers r' = get_active_signature_providers e (active_bp_keys event)))
      \<and> (\<not> is_active_bp (e\<lparr>m_prefix_tree := tree'\<rparr>) B \<longrightarrow> m_round e' = None)"
    if st: "should_start_round e3 B" and res: "on_accepted_block event e = Some e'" for e'
  proof (cases "is_active_bp e4 B")
    case True
    with c2a [OF st] res obtain e5 where
      n: "new_round (round_num B) (creator_key event) (active_bp_keys event) e4 = Some e5"
      and en: "accepted_end event e5 = Some e'"
      by (auto split: option.splits)
    from new_round_result [OF n] obtain r5 where r5: "m_round e5 = Some r5" "num r5 = round_num B"
      "primary r5 = creator_key event"
      "signature_providers r5 = get_active_signature_providers e (active_bp_keys event)"
      by (auto simp: prov)
    from accepted_end_round [OF en] r5 obtain r' where "m_round e' = Some r'" "same_round r5 r'"
      by auto
    moreover have "m_self_messages e' = []"
      using accepted_end_self [OF en] new_round_self [OF n] by (simp add: e4_def remove_round_fields)
    ultimately show ?thesis
      using True r5 by (simp add: act same_round_def)
  next
    case False
    with c2a [OF st] res have en: "accepted_end event e4 = Some e'"
      by simp
    from accepted_end_round [OF en] have "m_round e' = None"
      by (simp add: e4_def remove_round_fields)
    moreover have "m_self_messages e' = []"
      using accepted_end_self [OF en] by (simp add: e4_def remove_round_fields)
    ultimately show ?thesis
      using False by (simp add: act)
  qed
  have c2c: "m_peer_messages e4 = [] \<and> m_self_messages e4 = []
      \<and> no_confirmations (root (m_prefix_tree e4)) \<and> m_round e4 = None"
    by (simp add: e4_def remove_round_fields)
  have c4: "finite (active_bp_keys event) \<longrightarrow>
      set (get_active_signature_providers e (active_bp_keys event))
        = {sp. \<exists>key\<in>active_bp_keys event. map_of (m_sig_provs_by_key e) key = Some sp}"
    by (simp add: get_active_signature_providers_set)
  show ?thesis
    unfolding Let_def B_def [symmetric] e3_def [symmetric] e4_def [symmetric]
    apply (intro conjI impI allI)
              apply (rule c1)
             apply (simp add: c2c)
            apply (simp add: c2c)
           apply (simp add: c2c)
          apply (simp add: c2c)
         apply (erule c2a)
        apply (simp add: c2b)
       apply (simp add: c2b)
      apply (simp add: c2b)
     apply (erule c3)
    apply (erule c4 [rule_format])
    done
qed

lemma ex_bp_insert_B1:
  "insert_tree (m_prefix_tree ex_bp_node)
     (prev_block_id (ex_accept_event ex_B1 ex_B0),
      [on_accepted_block_event.block_id (ex_accept_event ex_B1 ex_B0)])
     (creator_key (ex_accept_event ex_B1 ex_B0)) (active_bp_keys (ex_accept_event ex_B1 ex_B0))
   = Some \<lparr>root = Node ex_B0 0 {} [] [Node ex_B1 1 ex_bps [] []], last_inserted_block = [(1, ex_B1)]\<rparr>"
  by code_simp

lemma ex_bp_accept_B1: "on_accepted_block (ex_accept_event ex_B1 ex_B0) ex_bp_node \<noteq> None"
  by code_simp

theorem round_start_on_accepted_block_witness:
  "\<exists>e' r'. on_accepted_block (ex_accept_event ex_B1 ex_B0) ex_bp_node = Some e'
      \<and> m_round ex_bp_node = None
      \<and> m_round e' = Some r' \<and> num r' = 0 \<and> primary r' = 1 \<and> signature_providers r' = [1]
      \<and> m_self_messages e' = []"
proof -
  from ex_bp_accept_B1 obtain e' where
    h: "on_accepted_block (ex_accept_event ex_B1 ex_B0) ex_bp_node = Some e'"
    by auto
  have a2: "\<not> sync (ex_accept_event ex_B1 ex_B0)"
    by (simp add: ex_accept_event_def)
  have a3: "\<not> get_block_num (on_accepted_block_event.block_id (ex_accept_event ex_B1 ex_B0))
              - get_block_num (m_lib ex_bp_node) > max_finality_lag_blocks"
    by code_simp
  have nr: "m_round ex_bp_node = None"
    by code_simp
  have bn: "1 \<le> get_block_num ex_B1" "round_num ex_B1 = 0"
    by code_simp+
  have act: "is_active_bp
      (ex_bp_node\<lparr>m_prefix_tree :=
         \<lparr>root = Node ex_B0 0 {} [] [Node ex_B1 1 ex_bps [] []], last_inserted_block = [(1, ex_B1)]\<rparr>\<rparr>)
      ex_B1"
    by code_simp
  have prov: "get_active_signature_providers ex_bp_node ex_bps = [1]"
    by code_simp
  have ev: "on_accepted_block_event.block_id (ex_accept_event ex_B1 ex_B0) = ex_B1"
    "creator_key (ex_accept_event ex_B1 ex_B0) = 1"
    "active_bp_keys (ex_accept_event ex_B1 ex_B0) = ex_bps"
    by (simp_all add: ex_accept_event_def)
  have a4: "1 \<le> get_block_num (on_accepted_block_event.block_id (ex_accept_event ex_B1 ex_B0))"
    using bn by (simp add: ev)
  note T = round_start_on_accepted_block [OF ex_bp_insert_B1 a2 a3 a4, unfolded Let_def]
  have S: "should_start_round
      (accepted_flags (ex_accept_event ex_B1 ex_B0)
         \<lparr>root = Node ex_B0 0 {} [] [Node ex_B1 1 ex_bps [] []], last_inserted_block = [(1, ex_B1)]\<rparr>
         ex_bp_node)
      (on_accepted_block_event.block_id (ex_accept_event ex_B1 ex_B0))"
    using T [THEN conjunct1] nr by (simp add: ev)
  note U = T [THEN conjunct2, THEN conjunct1, THEN mp, OF S]
  note V = U [THEN conjunct2, THEN conjunct2, THEN conjunct2, THEN conjunct2, THEN conjunct2,
      rule_format, OF h]
  from V act have "m_self_messages e' = []" and
    "\<exists>r'. m_round e' = Some r' \<and> num r' = round_num ex_B1 \<and> primary r' = 1
        \<and> signature_providers r' = get_active_signature_providers ex_bp_node ex_bps"
    by (simp_all add: ev)
  with h nr bn prov show ?thesis
    by auto
qed

subsection \<open>Replayed round messages\<close>


lemma dedup_kept_round: "dedup_kept a b \<Longrightarrow> dedup_kept a (b\<lparr>m_round := x\<rparr>)"
  by (simp add: dedup_kept_def)







subsection \<open>The votes of the local signature providers\<close>

lemma finish_round_round: "finish_round (r, e) = Some (r', e') \<Longrightarrow> state r = Done \<Longrightarrow> r' = r"
  by (auto simp: finish_round_def finish_def split: if_splits option.splits prod.splits)

lemma add_precommit_result:
  assumes "add_precommit msg (r, e) = Some (r', e')"
  shows "precommited_keys r' = insert (hd (public_keys msg)) (precommited_keys r)
       \<and> precommits (the_proof r') = precommits (the_proof r) @ [msg]
       \<and> best_node r' = best_node r"
  using assms
  by (auto simp: add_precommit_def Let_def
      split: if_splits option.splits prod.splits bool.splits dest!: finish_round_round)

lemma add_prevote_result:
  assumes "add_prevote msg (r, e) = Some (r', e')"
  shows "prevoted_keys r' = insert (hd (public_keys msg)) (prevoted_keys r)"
  using assms
  by (auto simp: add_prevote_def Let_def sync_best_node_def
      split: if_splits option.splits prod.splits)

lemma prevote_loop_keys:
  "for_each sps (\<lambda>sig_prov. add_prevote (signed_msg pv [sig_prov])) (r, e) = Some (r', e')
     \<Longrightarrow> prevoted_keys r' = prevoted_keys r \<union> set sps"
proof (induction sps arbitrary: r e)
  case Nil
  then show ?case by simp
next
  case (Cons sp sps)
  then obtain r1 e1 where a: "add_prevote (signed_msg pv [sp]) (r, e) = Some (r1, e1)"
    and b: "for_each sps (\<lambda>sig_prov. add_prevote (signed_msg pv [sig_prov])) (r1, e1) = Some (r', e')"
    by (auto split: option.splits)
  from add_prevote_result [OF a] Cons.IH [OF b] show ?case
    by (simp add: signed_msg_def public_keys_def)
qed

lemma precommit_loop_keys:
  "for_each sps (\<lambda>sig_prov. add_precommit (signed_msg pc [sig_prov])) (r, e) = Some (r', e')
     \<Longrightarrow> precommited_keys r' = precommited_keys r \<union> set sps
       \<and> precommits (the_proof r') = precommits (the_proof r) @ map (\<lambda>sig_prov. signed_msg pc [sig_prov]) sps
       \<and> best_node r' = best_node r"
proof (induction sps arbitrary: r e)
  case Nil
  then show ?case by simp
next
  case (Cons sp sps)
  then obtain r1 e1 where a: "add_precommit (signed_msg pc [sp]) (r, e) = Some (r1, e1)"
    and b: "for_each sps (\<lambda>sig_prov. add_precommit (signed_msg pc [sig_prov])) (r1, e1) = Some (r', e')"
    by (auto split: option.splits)
  from add_precommit_result [OF a] Cons.IH [OF b] show ?case
    by (simp add: signed_msg_def public_keys_def)
qed

lemma finish_round_done: "state r = Done \<Longrightarrow> finish_round (r, e) \<noteq> None"
  by (simp add: finish_round_def finish_def get_proof_def)

lemma add_precommit_returns:
  "best_node r \<noteq> None \<Longrightarrow> add_precommit (signed_msg pc [sp]) (r, e) \<noteq> None"
  using finish_round_done
  by (auto simp: add_precommit_def Let_def signed_msg_def public_keys_def
      is_precommit_threshold_reached_def split: option.splits bool.splits)

lemma precommit_loop_returns:
  "best_node r \<noteq> None
     \<Longrightarrow> for_each sps (\<lambda>sig_prov. add_precommit (signed_msg pc [sig_prov])) (r, e) \<noteq> None"
proof (induction sps arbitrary: r e)
  case Nil
  then show ?case by simp
next
  case (Cons sp sps)
  from add_precommit_returns [OF Cons.prems] obtain r1 e1 where
    a: "add_precommit (signed_msg pc [sp]) (r, e) = Some (r1, e1)"
    by fastforce
  from add_precommit_result [OF a] Cons.prems have "best_node r1 \<noteq> None"
    by simp
  from Cons.IH [OF this] a show ?case
    by simp
qed

lemma precommit_returns:
  "state r = Ready_to_precommit \<Longrightarrow> best_node r \<noteq> None \<Longrightarrow> precommit (r, e) \<noteq> None"
proof -
  assume st: "state r = Ready_to_precommit" and bn: "best_node r \<noteq> None"
  then obtain best where b: "best_node r = Some best" by auto
  have "best_node (r\<lparr>state := Precommit\<rparr>) \<noteq> None"
    using bn by simp
  from precommit_loop_returns [OF this]
  obtain r2 e2 where "for_each (signature_providers r)
      (\<lambda>sig_prov. add_precommit (signed_msg \<lparr>precommit_type.round_num = num r,
                                                  block_id = prefix_node.block_id best\<rparr> [sig_prov]))
      (r\<lparr>state := Precommit\<rparr>, e) = Some (r2, e2)"
    by fastforce
  with st b show ?thesis
    by (simp add: precommit_def Let_def)
qed

lemma find_node_update_node:
  assumes "\<And>m. prefix_node.block_id (f m) = prefix_node.block_id m"
    and "\<And>m. adjacent_nodes (f m) = adjacent_nodes m"
  shows "(find_node (update_node f i n) j = None) = (find_node n j = None)"
    and "(find_nodes (update_nodes f i ns) j = None) = (find_nodes ns j = None)"
proof (induction n j and ns j rule: find_node_find_nodes.induct)
  case (1 b c a d ns j)
  show ?case
  proof (cases "b = i")
    case True
    have "find_node (f (Node b c a d ns)) j
        = (if b = j then Some (f (Node b c a d ns)) else find_nodes ns j)"
      using assms [of "Node b c a d ns"] by (cases "f (Node b c a d ns)") auto
    with True show ?thesis by simp
  next
    case False
    with 1 show ?thesis by simp
  qed
next
  case (2 j)
  show ?case by simp
next
  case (3 n ns j)
  then show ?case
    by (cases "find_node n i") (auto split: option.splits)
qed

lemma find_tree_add_confirmations:
  assumes "add_confirmations t ch k c = Some (t', n)"
  shows "(find_tree t' j = None) = (find_tree t j = None)"
  using assms
  by (auto simp: add_confirmations_def find_tree_def add_confirmation_def
      find_node_update_node split: option.splits)

lemma get_tree_node_add_confirmations:
  assumes "add_confirmations t ch k c = Some (t', n)"
  shows "(get_tree_node t' chain = None) = (get_tree_node t chain = None)"
proof -
  have p: "(\<lambda>b. find_tree t' b \<noteq> None) = (\<lambda>b. find_tree t b \<noteq> None)"
    by (simp add: find_tree_add_confirmations [OF assms])
  show ?thesis
    unfolding get_tree_node_def p
    by (simp add: find_tree_add_confirmations [OF assms] split: option.splits)
qed

lemma path_node_last:
  "path_node n i = Some p \<Longrightarrow> (p = [] \<and> prefix_node.block_id n = i) \<or> (p \<noteq> [] \<and> last p = i)"
  "path_nodes ns i = Some p \<Longrightarrow> p \<noteq> [] \<and> last p = i"
proof (induction n i and ns i arbitrary: p and p rule: path_node_path_nodes.induct)
  case (1 b c a d ns i)
  then show ?case by (auto split: if_splits)
next
  case (2 i)
  then show ?case by simp
next
  case (3 n ns i)
  show ?case
  proof (cases "path_node n i")
    case None
    with 3 show ?thesis by simp
  next
    case (Some q)
    with "3.prems" have p: "p = prefix_node.block_id n # q" by simp
    from "3.IH"(1) [OF Some] p show ?thesis by auto
  qed
qed

lemma find_node_path_node:
  "(find_node n i = None) = (path_node n i = None)"
  "(find_nodes ns i = None) = (path_nodes ns i = None)"
  by (induction n i and ns i rule: find_node_find_nodes.induct) (auto split: option.splits)

lemma find_node_root: "find_node n (prefix_node.block_id n) = Some n"
  by (cases n) simp

lemma get_tree_node_branch:
  assumes "find_tree t i \<noteq> None"
  shows "get_tree_node t (get_branch t i) \<noteq> None"
proof -
  from assms obtain p where p: "path_node (root t) i = Some p"
    using find_node_path_node(1) [of "root t" i] by (auto simp: find_tree_def)
  show ?thesis
  proof (cases "p = []")
    case True
    with p show ?thesis
      by (simp add: get_tree_node_def get_branch_def find_tree_def find_node_root)
  next
    case False
    with path_node_last(1) [OF p] have l: "last p = i" by simp
    from False obtain q where q: "rev p = i # q"
      using l by (cases "rev p") (auto simp: last_rev)
    with assms p show ?thesis
      by (simp add: get_tree_node_def get_branch_def)
  qed
qed

lemma add_prevote_returns:
  "get_tree_node (m_prefix_tree e) (base_block pv, blocks pv) \<noteq> None
     \<Longrightarrow> add_prevote (signed_msg pv [sp]) (r, e) \<noteq> None"
  by (auto simp: add_prevote_def Let_def signed_msg_def public_keys_def add_confirmations_def
      split: option.splits)

lemma add_prevote_tree:
  assumes "add_prevote msg (r, e) = Some (r', e')"
  shows "(get_tree_node (m_prefix_tree e') chain = None) = (get_tree_node (m_prefix_tree e) chain = None)"
proof -
  from assms obtain t' n where
    a: "add_confirmations (m_prefix_tree e)
          (base_block (network_msg.data msg), blocks (network_msg.data msg)) (hd (public_keys msg)) msg
        = Some (t', n)"
    and e': "m_prefix_tree e' = t'"
    by (auto simp: add_prevote_def Let_def split: if_splits option.splits prod.splits)
  from get_tree_node_add_confirmations [OF a] e' show ?thesis by simp
qed

lemma prevote_loop_returns:
  "get_tree_node (m_prefix_tree e) (base_block pv, blocks pv) \<noteq> None
     \<Longrightarrow> for_each sps (\<lambda>sig_prov. add_prevote (signed_msg pv [sig_prov])) (r, e) \<noteq> None"
proof (induction sps arbitrary: r e)
  case Nil
  then show ?case by simp
next
  case (Cons sp sps)
  from add_prevote_returns [OF Cons.prems] obtain r1 e1 where
    a: "add_prevote (signed_msg pv [sp]) (r, e) = Some (r1, e1)"
    by fastforce
  from add_prevote_tree [OF a] Cons.prems
  have "get_tree_node (m_prefix_tree e1) (base_block pv, blocks pv) \<noteq> None"
    by simp
  from Cons.IH [OF this] a show ?case
    by simp
qed

lemma prevote_returns: "state r = Init \<Longrightarrow> prevote (r, e) \<noteq> None"
proof (cases "get_last_inserted_block (m_prefix_tree e) (primary r)")
  case None
  assume "state r = Init"
  with None show ?thesis by (simp add: prevote_def Let_def)
next
  case (Some last_node)
  assume st: "state r = Init"
  define chain where "chain = get_branch (m_prefix_tree e) (prefix_node.block_id last_node)"
  define pv where "pv = \<lparr>prevote_type.round_num = num r, base_block = fst chain, blocks = snd chain\<rparr>"
  from Some have f: "find_tree (m_prefix_tree e) (prefix_node.block_id last_node) \<noteq> None"
    by (auto simp: get_last_inserted_block_def find_tree_block_id split: option.splits)
  have "get_tree_node (m_prefix_tree e) (base_block pv, blocks pv) \<noteq> None"
    using get_tree_node_branch [OF f] by (simp add: pv_def chain_def)
  from prevote_loop_returns [OF this] obtain r2 e2 where
    "for_each (signature_providers r) (\<lambda>sig_prov. add_prevote (signed_msg pv [sig_prov]))
       (r\<lparr>state := Prevote\<rparr>, e) = Some (r2, e2)"
    by fastforce
  with st Some show ?thesis
    by (simp add: prevote_def Let_def pv_def chain_def)
qed

lemma on_prevote_invalid:
  "\<not> validate_prevote (m_prefix_tree e) r \<lparr>network_msg.data = d, signatures = [k]\<rparr> k
     \<Longrightarrow> on_prevote \<lparr>network_msg.data = d, signatures = [k]\<rparr> (r, e) = Some (r, e)"
  by (simp add: on_prevote_def public_keys_def)

lemma on_precommit_invalid:
  "validate_precommit r \<lparr>network_msg.data = d, signatures = [k]\<rparr> k = Some False
     \<Longrightarrow> on_precommit \<lparr>network_msg.data = d, signatures = [k]\<rparr> (r, e) = Some (r, e)"
  by (simp add: on_precommit_def public_keys_def)

text \<open>
  C10. The votes of the local signature providers are not validated. \<^verbatim>\<open>prevote()\<close>,
  called on a fresh round for which the tree has a last inserted block of the
  primary, returns and has recorded the key of every signature provider of the round
  in \<^verbatim>\<open>prevoted_keys\<close>; \<^verbatim>\<open>precommit()\<close>, called on a round that is ready to precommit
  with its best node set, returns and has appended one precommit for the best node
  per signature provider to \<^verbatim>\<open>proof.precommits\<close> and inserted every provider's key
  into \<^verbatim>\<open>precommited_keys\<close>. Neither result depends on \<^verbatim>\<open>validate_prevote\<close> or
  \<^verbatim>\<open>validate_precommit\<close>. A message from the network with one signature that fails
  its validation leaves the round and the engine as they are.
\<close>

theorem local_votes_bypass_validation:
  "(state r = Init \<longrightarrow> get_last_inserted_block (m_prefix_tree e) (primary r) \<noteq> None \<longrightarrow>
      (\<exists>r' e'. prevote (r, e) = Some (r', e')
         \<and> prevoted_keys r' = prevoted_keys r \<union> set (signature_providers r)))
   \<and> (state r = Ready_to_precommit \<longrightarrow> best_node r = Some best \<longrightarrow>
      (\<exists>r' e'. precommit (r, e) = Some (r', e')
         \<and> precommited_keys r' = precommited_keys r \<union> set (signature_providers r)
         \<and> precommits (the_proof r')
              = precommits (the_proof r)
                  @ map (\<lambda>sig_prov. signed_msg \<lparr>precommit_type.round_num = num r,
                                                  block_id = prefix_node.block_id best\<rparr> [sig_prov])
                        (signature_providers r)))
   \<and> (\<not> validate_prevote (m_prefix_tree e) r \<lparr>network_msg.data = pv, signatures = [k]\<rparr> k \<longrightarrow>
        on_prevote \<lparr>network_msg.data = pv, signatures = [k]\<rparr> (r, e) = Some (r, e))
   \<and> (validate_precommit r \<lparr>network_msg.data = pc, signatures = [k]\<rparr> k = Some False \<longrightarrow>
        on_precommit \<lparr>network_msg.data = pc, signatures = [k]\<rparr> (r, e) = Some (r, e))"
proof (intro conjI impI)
  assume st: "state r = Init"
    and l: "get_last_inserted_block (m_prefix_tree e) (primary r) \<noteq> None"
  from prevote_returns [OF st] obtain r' e' where h: "prevote (r, e) = Some (r', e')"
    by fastforce
  from l obtain last_node where
    ln: "get_last_inserted_block (m_prefix_tree e) (primary r) = Some last_node"
    by auto
  define chain where "chain = get_branch (m_prefix_tree e) (prefix_node.block_id last_node)"
  define pv where "pv = \<lparr>prevote_type.round_num = num r, base_block = fst chain, blocks = snd chain\<rparr>"
  from h ln obtain r2 e2 where
    loop: "for_each (signature_providers r) (\<lambda>sig_prov. add_prevote (signed_msg pv [sig_prov]))
             (r\<lparr>state := Prevote\<rparr>, e) = Some (r2, e2)"
    and res: "r' = r2"
    by (simp add: prevote_def Let_def pv_def chain_def split: if_splits option.splits prod.splits)
  from prevote_loop_keys [OF loop] res
  have "prevoted_keys r' = prevoted_keys r \<union> set (signature_providers r)"
    by simp
  with h show "\<exists>r' e'. prevote (r, e) = Some (r', e')
         \<and> prevoted_keys r' = prevoted_keys r \<union> set (signature_providers r)"
    by blast
next
  assume st: "state r = Ready_to_precommit" and b: "best_node r = Some best"
  from precommit_returns [OF st] b obtain r' e' where h: "precommit (r, e) = Some (r', e')"
    by fastforce
  define pc where "pc = \<lparr>precommit_type.round_num = num r, block_id = prefix_node.block_id best\<rparr>"
  from h b obtain r2 e2 where
    loop: "for_each (signature_providers r) (\<lambda>sig_prov. add_precommit (signed_msg pc [sig_prov]))
             (r\<lparr>state := Precommit\<rparr>, e) = Some (r2, e2)"
    and res: "r' = r2"
    by (simp add: precommit_def Let_def pc_def split: if_splits option.splits prod.splits)
  from precommit_loop_keys [OF loop] res
  have "precommited_keys r' = precommited_keys r \<union> set (signature_providers r)
         \<and> precommits (the_proof r')
              = precommits (the_proof r)
                  @ map (\<lambda>sig_prov. signed_msg \<lparr>precommit_type.round_num = num r,
                                                  block_id = prefix_node.block_id best\<rparr> [sig_prov])
                        (signature_providers r)"
    by (simp add: pc_def)
  with h show "\<exists>r' e'. precommit (r, e) = Some (r', e')
         \<and> precommited_keys r' = precommited_keys r \<union> set (signature_providers r)
         \<and> precommits (the_proof r')
              = precommits (the_proof r)
                  @ map (\<lambda>sig_prov. signed_msg \<lparr>precommit_type.round_num = num r,
                                                  block_id = prefix_node.block_id best\<rparr> [sig_prov])
                        (signature_providers r)"
    by blast
qed (simp_all add: on_prevote_invalid on_precommit_invalid)

lemma ex_twin_round:
  "map_option (\<lambda>e. map_option (\<lambda>r. (state r, map_option prefix_node.block_id (best_node r),
                                       precommited_keys r, signature_providers r, num r,
                                       precommits (the_proof r),
                                       validate_precommit r (ex_commit1 1) 1)) (m_round e))
     (process_msgs ex_twin_msgs ex_bp_node)
   = Some (Some (Ready_to_precommit, Some ex_B1, {1}, [1], 0, [ex_commit1 1], Some False))"
  by code_simp

lemma ex_stranger_facts:
  "get_last_inserted_block (m_prefix_tree ex_full_node3) (primary ex_stranger_round) \<noteq> None"
  "\<not> validate_prevote (m_prefix_tree ex_full_node3) (ex_stranger_round\<lparr>state := Prevote\<rparr>)
       (signed_msg \<lparr>prevote_type.round_num = 1, base_block = ex_B0, blocks = [ex_B1, ex_B2, ex_B3]\<rparr> [5]) 5"
  by code_simp+

theorem local_votes_bypass_validation_witness:
  "(\<exists>r' e'. prevote (ex_stranger_round, ex_full_node3) = Some (r', e') \<and> prevoted_keys r' = {5})
   \<and> \<not> validate_prevote (m_prefix_tree ex_full_node3) (ex_stranger_round\<lparr>state := Prevote\<rparr>)
         (signed_msg \<lparr>prevote_type.round_num = 1, base_block = ex_B0, blocks = [ex_B1, ex_B2, ex_B3]\<rparr> [5]) 5
   \<and> (\<exists>e r r' e'. process_msgs ex_twin_msgs ex_bp_node = Some e \<and> m_round e = Some r
         \<and> validate_precommit r (ex_commit1 1) 1 = Some False
         \<and> precommit (r, e) = Some (r', e')
         \<and> precommits (the_proof r') = [ex_commit1 1, ex_commit1 1]
         \<and> precommited_keys r' = {1})"
proof -
  have st: "state ex_stranger_round = Init"
    by (simp add: ex_stranger_round_def)
  from local_votes_bypass_validation [of ex_stranger_round ex_full_node3, THEN conjunct1, rule_format,
      OF st ex_stranger_facts(1)]
  have p1: "\<exists>r' e'. prevote (ex_stranger_round, ex_full_node3) = Some (r', e') \<and> prevoted_keys r' = {5}"
    by (simp add: ex_stranger_round_def)
  from ex_twin_round obtain e r where
    h: "process_msgs ex_twin_msgs ex_bp_node = Some e" and rr: "m_round e = Some r"
    and f: "state r = Ready_to_precommit" "map_option prefix_node.block_id (best_node r) = Some ex_B1"
      "precommited_keys r = {1}" "signature_providers r = [1]" "num r = 0"
      "precommits (the_proof r) = [ex_commit1 1]" "validate_precommit r (ex_commit1 1) 1 = Some False"
    by auto
  from f(2) obtain best where b: "best_node r = Some best" "prefix_node.block_id best = ex_B1"
    by auto
  from local_votes_bypass_validation [of r e best, THEN conjunct2, THEN conjunct1, rule_format,
      OF f(1) b(1)]
  obtain r' e' where "precommit (r, e) = Some (r', e')"
    "precommited_keys r' = {1}" "precommits (the_proof r') = [ex_commit1 1, ex_commit1 1]"
    by (auto simp: f b ex_commit1_def)
  with h rr f(7) have "\<exists>e r r' e'. process_msgs ex_twin_msgs ex_bp_node = Some e \<and> m_round e = Some r
         \<and> validate_precommit r (ex_commit1 1) 1 = Some False
         \<and> precommit (r, e) = Some (r', e')
         \<and> precommits (the_proof r') = [ex_commit1 1, ex_commit1 1]
         \<and> precommited_keys r' = {1}"
    by blast
  with p1 ex_stranger_facts(2) show ?thesis
    by blast
qed

subsection \<open>A round that is done\<close>


lemma done_justified_not_done: "state r \<noteq> Done \<Longrightarrow> done_justified r e"
  by (simp add: done_justified_def)




























end
